theory Spec2Isabelle
  imports Complex_Main "HOL-Library.Word" "HOL-Library.Monad_Syntax"
begin

unbundle bit_operations_syntax

section \<open>Graph layer: the fully-connected node definition\<close>

text \<open>
  Source: \<^verbatim>\<open>src/subgraph/fully-connected.c\<close>.  The function
  \<^verbatim>\<open>xnn_define_fully_connected\<close> validates its arguments against the subgraph and,
  when every check has passed, asks the subgraph for a new node and fills it in.

  The enumerations, the Value, Node and Subgraph structures, the initialisation flag and the
  invalid-id sentinel are declared in headers (\<^verbatim>\<open>xnnpack.h\<close>,
  \<^verbatim>\<open>xnnpack/subgraph.h\<close>, \<^verbatim>\<open>xnnpack/params.h\<close>) that are not part
  of the sources at hand; the declarations below carry the enumerators and the fields that the
  function names.
\<close>

subsection \<open>Data model\<close>

text \<open>Modelled from the spec: the status codes of section 6 (the enumeration
  \<^verbatim>\<open>enum xnn_status\<close> of \<^verbatim>\<open>xnnpack.h\<close>).\<close>

datatype xnn_status =
    xnn_status_success
  | xnn_status_uninitialized
  | xnn_status_invalid_parameter
  | xnn_status_out_of_memory

text \<open>Modelled from the spec: the Value datatypes of section 3
  (\<^verbatim>\<open>enum xnn_datatype\<close>); \<open>xnn_datatype_invalid\<close> and \<open>xnn_datatype_fp16\<close> stand
  for the enumerators that no \<^verbatim>\<open>case\<close> label of the source names.\<close>

datatype xnn_datatype =
    xnn_datatype_invalid
  | xnn_datatype_fp32
  | xnn_datatype_fp16
  | xnn_datatype_qint8
  | xnn_datatype_quint8
  | xnn_datatype_qint32

text \<open>Modelled from the spec: the kind of a Value (\<^verbatim>\<open>enum xnn_value_type\<close>).\<close>

datatype xnn_value_type =
    xnn_value_type_invalid
  | xnn_value_type_dense_tensor

text \<open>Modelled from the spec: the operator kind of a Node (\<^verbatim>\<open>enum xnn_node_type\<close>),
  restricted to the two kinds the source mentions.\<close>

datatype xnn_node_type =
    xnn_node_type_invalid
  | xnn_node_type_convolution_2d
  | xnn_node_type_fully_connected

text \<open>
  A C \<^verbatim>\<open>float\<close> as far as the validation looks at it: it is a NaN, an infinity or
  a finite number.  \<open>isnan\<close> and \<open>float_ge\<close> are C's \<^verbatim>\<open>isnan\<close> and \<^verbatim>\<open>>=\<close>:
  every comparison with a NaN is false.
\<close>

datatype float = NaN | NegInf | Finite real | PosInf

fun isnan :: "float \<Rightarrow> bool" where
  "isnan NaN = True"
| "isnan _ = False"

fun float_ge :: "float \<Rightarrow> float \<Rightarrow> bool" where
  "float_ge NaN _ = False"
| "float_ge _ NaN = False"
| "float_ge _ NegInf = True"
| "float_ge PosInf _ = True"
| "float_ge NegInf _ = False"
| "float_ge (Finite x) (Finite y) = (y \<le> x)"
| "float_ge (Finite x) PosInf = False"

text \<open>
  \<^verbatim>\<open>struct xnn_value\<close>: the fields the function reads.  \<open>v_data\<close> is the pointer to
  static data, \<open>None\<close> for \<^verbatim>\<open>NULL\<close>; \<open>v_zero_point\<close> is the \<^verbatim>\<open>int32_t\<close>
  \<^verbatim>\<open>quantization.zero_point\<close>.
\<close>

record xnn_value =
  v_type :: xnn_value_type
  v_datatype :: xnn_datatype
  v_zero_point :: "32 word"
  v_scale :: float
  v_dim :: "nat list"
  v_data :: "nat option"

text \<open>The callbacks a node can be bound to; \<open>None\<close> in a node is the null function pointer.\<close>

datatype create_callback = create_fully_connected_operator

datatype setup_callback = setup_fully_connected_operator

text \<open>\<^verbatim>\<open>struct xnn_node\<close>.  The arrays \<^verbatim>\<open>inputs\<close> and \<^verbatim>\<open>outputs\<close> are
  indexed by position.\<close>

record xnn_node =
  n_id :: nat
  n_type :: xnn_node_type
  n_output_min :: float
  n_output_max :: float
  n_num_inputs :: nat
  n_inputs :: "nat \<Rightarrow> 32 word"
  n_num_outputs :: nat
  n_outputs :: "nat \<Rightarrow> 32 word"
  n_flags :: "32 word"
  n_create :: "create_callback option"
  n_setup :: "setup_callback option"

text \<open>\<^verbatim>\<open>struct xnn_subgraph\<close>: \<^verbatim>\<open>num_values\<close> and \<^verbatim>\<open>num_nodes\<close> are the
  lengths of the two lists.\<close>

record xnn_subgraph =
  sg_values :: "xnn_value list"
  sg_nodes :: "xnn_node list"

definition num_values :: "xnn_subgraph \<Rightarrow> nat" where
  "num_values subgraph = length (sg_values subgraph)"

definition num_nodes :: "xnn_subgraph \<Rightarrow> nat" where
  "num_nodes subgraph = length (sg_nodes subgraph)"

text \<open>Modelled from the spec: the sentinel \<^verbatim>\<open>XNN_INVALID_VALUE_ID\<close> of
  \<^verbatim>\<open>xnnpack.h\<close>, the largest 32-bit id, which names no Value.\<close>

definition XNN_INVALID_VALUE_ID :: "32 word" where
  "XNN_INVALID_VALUE_ID = 0xFFFFFFFF"

text \<open>Modelled from the spec: the bit of \<^verbatim>\<open>xnn_params.init_flags\<close> that says the
  library is initialised (design note on the process-wide initialisation flag).\<close>

definition XNN_INIT_FLAG_XNNPACK :: "32 word" where
  "XNN_INIT_FLAG_XNNPACK = 1"

text \<open>
  The two preprocessor switches of the file.  \<open>True\<close> means the macro is defined, that is,
  the operators of that family are compiled out.
\<close>

record build_config =
  XNN_NO_QS8_OPERATORS :: bool
  XNN_NO_QU8_OPERATORS :: bool

definition default_build :: build_config where
  "default_build = \<lparr> XNN_NO_QS8_OPERATORS = False, XNN_NO_QU8_OPERATORS = False \<rparr>"

text \<open>The four operands of the node, as the log lines name them.\<close>

datatype operand = Input | Filter | Bias | Output

text \<open>What \<^verbatim>\<open>xnn_log_error\<close> is called with: one constructor per format string of
  the function, with the arguments that identify the offending id or field.\<close>

datatype log_entry =
    Log_not_initialized xnn_node_type
  | Log_nan_lower_bound xnn_node_type
  | Log_nan_upper_bound xnn_node_type
  | Log_bad_range xnn_node_type float float
  | Log_invalid_value_id xnn_node_type operand "32 word"
  | Log_unsupported_value_type xnn_node_type operand "32 word" xnn_value_type
  | Log_non_static xnn_node_type operand "32 word"
  | Log_unsupported_datatype xnn_node_type operand "32 word" xnn_datatype
  | Log_unsupported_zero_point xnn_node_type "32 word" "32 word" xnn_datatype
  | Log_mismatch_with_bias xnn_node_type xnn_datatype xnn_datatype xnn_datatype xnn_datatype
  | Log_mismatch_without_bias xnn_node_type xnn_datatype xnn_datatype xnn_datatype

subsection \<open>The datatype checks\<close>

text \<open>
  \<^verbatim>\<open>check_datatypes_with_bias\<close> and \<^verbatim>\<open>check_datatypes_without_bias\<close>.  The
  \<^verbatim>\<open>default\<close> label is \<^verbatim>\<open>XNN_UNREACHABLE\<close>: the result \<open>None\<close> says that
  control has reached it.  A \<^verbatim>\<open>case\<close> label under \<^verbatim>\<open>#ifndef\<close> exists only
  when the macro is not defined.
\<close>

definition check_datatypes_with_bias ::
  "build_config \<Rightarrow> xnn_datatype \<Rightarrow> xnn_datatype \<Rightarrow> xnn_datatype \<Rightarrow> xnn_datatype \<Rightarrow> bool option"
where
  "check_datatypes_with_bias cfg input_datatype filter_datatype bias_datatype output_datatype =
    (if output_datatype = xnn_datatype_fp32 then
       Some (input_datatype = xnn_datatype_fp32 \<and> filter_datatype = xnn_datatype_fp32
             \<and> bias_datatype = xnn_datatype_fp32)
     else if output_datatype = xnn_datatype_qint8 \<and> \<not> XNN_NO_QS8_OPERATORS cfg then
       Some (input_datatype = xnn_datatype_qint8 \<and> filter_datatype = xnn_datatype_qint8
             \<and> bias_datatype = xnn_datatype_qint32)
     else if output_datatype = xnn_datatype_quint8 \<and> \<not> XNN_NO_QU8_OPERATORS cfg then
       Some (input_datatype = xnn_datatype_quint8 \<and> filter_datatype = xnn_datatype_quint8
             \<and> bias_datatype = xnn_datatype_qint32)
     else None)"

definition check_datatypes_without_bias ::
  "build_config \<Rightarrow> xnn_datatype \<Rightarrow> xnn_datatype \<Rightarrow> xnn_datatype \<Rightarrow> bool option"
where
  "check_datatypes_without_bias cfg input_datatype filter_datatype output_datatype =
    (if output_datatype = xnn_datatype_fp32 then
       Some (input_datatype = xnn_datatype_fp32 \<and> filter_datatype = xnn_datatype_fp32)
     else if output_datatype = xnn_datatype_qint8 \<and> \<not> XNN_NO_QS8_OPERATORS cfg then
       Some (input_datatype = xnn_datatype_qint8 \<and> filter_datatype = xnn_datatype_qint8)
     else if output_datatype = xnn_datatype_quint8 \<and> \<not> XNN_NO_QU8_OPERATORS cfg then
       Some (input_datatype = xnn_datatype_quint8 \<and> filter_datatype = xnn_datatype_quint8)
     else None)"

subsection \<open>The switches of the validation\<close>

text \<open>
  The \<^verbatim>\<open>switch\<close> over the input datatype (and, with the same labels, over the output
  datatype): \<open>True\<close> when control leaves through \<^verbatim>\<open>break\<close>, \<open>False\<close> when it
  takes the \<^verbatim>\<open>default\<close> label.
\<close>

definition activation_datatype_switch :: "build_config \<Rightarrow> xnn_datatype \<Rightarrow> bool" where
  "activation_datatype_switch cfg dt =
    (dt = xnn_datatype_fp32
     \<or> (dt = xnn_datatype_qint8 \<and> \<not> XNN_NO_QS8_OPERATORS cfg)
     \<or> (dt = xnn_datatype_quint8 \<and> \<not> XNN_NO_QU8_OPERATORS cfg))"

text \<open>
  The \<^verbatim>\<open>switch\<close> over the filter datatype.  \<open>None\<close>: the \<^verbatim>\<open>default\<close> label, which
  logs and returns.  \<open>Some lg\<close>: control leaves through \<^verbatim>\<open>break\<close>, having logged
  \<open>lg\<close>.  In the \<^verbatim>\<open>xnn_datatype_qint8\<close> case a nonzero zero point is logged (under the
  node type \<^verbatim>\<open>xnn_node_type_convolution_2d\<close>, as the source has it) and the
  \<^verbatim>\<open>break\<close> follows the \<^verbatim>\<open>if\<close>: there is no \<^verbatim>\<open>return\<close> in that branch.
\<close>

definition filter_datatype_switch ::
  "build_config \<Rightarrow> 32 word \<Rightarrow> xnn_value \<Rightarrow> log_entry list option"
where
  "filter_datatype_switch cfg filter_id filter_value =
    (if v_datatype filter_value = xnn_datatype_fp32 then Some []
     else if v_datatype filter_value = xnn_datatype_qint8 \<and> \<not> XNN_NO_QS8_OPERATORS cfg then
       (if v_zero_point filter_value \<noteq> 0 then
          Some [Log_unsupported_zero_point xnn_node_type_convolution_2d filter_id
                  (v_zero_point filter_value) (v_datatype filter_value)]
        else Some [])
     else if v_datatype filter_value = xnn_datatype_quint8 \<and> \<not> XNN_NO_QU8_OPERATORS cfg then
       Some []
     else None)"

text \<open>The \<^verbatim>\<open>switch\<close> over the bias datatype: \<^verbatim>\<open>xnn_datatype_qint32\<close> is a label
  unless both operator families are compiled out.\<close>

definition bias_datatype_switch :: "build_config \<Rightarrow> xnn_datatype \<Rightarrow> bool" where
  "bias_datatype_switch cfg dt =
    (dt = xnn_datatype_fp32
     \<or> (dt = xnn_datatype_qint32 \<and> (\<not> XNN_NO_QS8_OPERATORS cfg \<or> \<not> XNN_NO_QU8_OPERATORS cfg)))"

subsection \<open>Node allocation\<close>

text \<open>
  Modelled from the spec: \<^verbatim>\<open>xnn_subgraph_new_node\<close> (of \<^verbatim>\<open>src/subgraph.c\<close>, not
  among the sources at hand).  Sections 4.4 and 7 say that node creation is append-only, that a
  new Node record is appended to the graph's node list, and that an allocation failure is
  reported with no partial state retained.  Whether the allocation succeeds is the
  environment's choice, the argument \<open>alloc_ok\<close>.  The result is the subgraph and the index of
  the new node (\<open>None\<close> for the null pointer).  The fresh node is zero-filled but for its id.
\<close>

definition zero_node :: "nat \<Rightarrow> xnn_node" where
  "zero_node i =
    \<lparr> n_id = i, n_type = xnn_node_type_invalid, n_output_min = Finite 0, n_output_max = Finite 0,
      n_num_inputs = 0, n_inputs = (\<lambda>_. 0), n_num_outputs = 0, n_outputs = (\<lambda>_. 0),
      n_flags = 0, n_create = None, n_setup = None \<rparr>"

definition xnn_subgraph_new_node :: "bool \<Rightarrow> xnn_subgraph \<Rightarrow> xnn_subgraph \<times> nat option" where
  "xnn_subgraph_new_node alloc_ok subgraph =
    (if alloc_ok then
       (subgraph \<lparr> sg_nodes := sg_nodes subgraph @ [zero_node (length (sg_nodes subgraph))] \<rparr>,
        Some (length (sg_nodes subgraph)))
     else (subgraph, None))"

subsection \<open>The definition function\<close>

text \<open>
  The \<^verbatim>\<open>if (bias_value != NULL) ... else ...\<close> statement that closes the validation.
  \<open>None\<close>: an \<^verbatim>\<open>XNN_UNREACHABLE\<close> was reached; \<open>Some None\<close>: the check that applies has
  passed; \<open>Some (Some entry)\<close>: it has failed and \<open>entry\<close> is logged.
\<close>

definition datatypes_check ::
  "build_config \<Rightarrow> xnn_value \<Rightarrow> xnn_value \<Rightarrow> xnn_value option \<Rightarrow> xnn_value \<Rightarrow>
   log_entry option option"
where
  "datatypes_check cfg input_value filter_value bias_value output_value =
    (case bias_value of
       Some bv \<Rightarrow>
         map_option
           (\<lambda>ok. if ok then None
                 else Some (Log_mismatch_with_bias xnn_node_type_fully_connected
                        (v_datatype input_value) (v_datatype filter_value) (v_datatype bv)
                        (v_datatype output_value)))
           (check_datatypes_with_bias cfg (v_datatype input_value) (v_datatype filter_value)
              (v_datatype bv) (v_datatype output_value))
     | None \<Rightarrow>
         map_option
           (\<lambda>ok. if ok then None
                 else Some (Log_mismatch_without_bias xnn_node_type_fully_connected
                        (v_datatype input_value) (v_datatype filter_value)
                        (v_datatype output_value)))
           (check_datatypes_without_bias cfg (v_datatype input_value) (v_datatype filter_value)
              (v_datatype output_value)))"

text \<open>
  The fields of the new node that the function sets once the node exists.
\<close>

definition fill_node ::
  "float \<Rightarrow> float \<Rightarrow> 32 word \<Rightarrow> 32 word \<Rightarrow> 32 word \<Rightarrow> 32 word \<Rightarrow> 32 word \<Rightarrow> xnn_node \<Rightarrow> xnn_node"
where
  "fill_node output_min output_max input_id filter_id bias_id output_id flags node =
    node \<lparr> n_type := xnn_node_type_fully_connected,
           n_output_min := output_min,
           n_output_max := output_max,
           n_num_inputs := 2 + (if bias_id \<noteq> XNN_INVALID_VALUE_ID then 1 else 0),
           n_inputs := (n_inputs node)(0 := input_id, 1 := filter_id, 2 := bias_id),
           n_num_outputs := 1,
           n_outputs := (n_outputs node)(0 := output_id),
           n_flags := flags,
           n_create := Some create_fully_connected_operator,
           n_setup := Some setup_fully_connected_operator \<rparr>"

text \<open>
  \<^verbatim>\<open>xnn_define_fully_connected\<close>, check by check in the order of the source.  The
  arguments \<open>cfg\<close>, \<open>init_flags\<close> (the global \<^verbatim>\<open>xnn_params.init_flags\<close>) and \<open>alloc_ok\<close>
  are the environment of the call.  The result is the status, the subgraph after the call and
  the lines logged; \<open>None\<close> would mean that an \<^verbatim>\<open>XNN_UNREACHABLE\<close> was reached.
\<close>

definition xnn_define_fully_connected ::
  "build_config \<Rightarrow> 32 word \<Rightarrow> bool \<Rightarrow> xnn_subgraph \<Rightarrow> float \<Rightarrow> float \<Rightarrow>
   32 word \<Rightarrow> 32 word \<Rightarrow> 32 word \<Rightarrow> 32 word \<Rightarrow> 32 word \<Rightarrow>
   (xnn_status \<times> xnn_subgraph \<times> log_entry list) option"
where
  "xnn_define_fully_connected cfg init_flags alloc_ok subgraph output_min output_max
      input_id filter_id bias_id output_id flags =
    (let fc = xnn_node_type_fully_connected; inval = xnn_status_invalid_parameter in
     if init_flags AND XNN_INIT_FLAG_XNNPACK = 0 then
       Some (xnn_status_uninitialized, subgraph, [Log_not_initialized fc])
     else if isnan output_min then
       Some (inval, subgraph, [Log_nan_lower_bound fc])
     else if isnan output_max then
       Some (inval, subgraph, [Log_nan_upper_bound fc])
     else if float_ge output_min output_max then
       Some (inval, subgraph, [Log_bad_range fc output_min output_max])
     else if unat input_id \<ge> num_values subgraph then
       Some (inval, subgraph, [Log_invalid_value_id fc Input input_id])
     else
     let input_value = sg_values subgraph ! unat input_id in
     if v_type input_value \<noteq> xnn_value_type_dense_tensor then
       Some (inval, subgraph, [Log_unsupported_value_type fc Input input_id (v_type input_value)])
     else if \<not> activation_datatype_switch cfg (v_datatype input_value) then
       Some (inval, subgraph, [Log_unsupported_datatype fc Input input_id (v_datatype input_value)])
     else if unat filter_id \<ge> num_values subgraph then
       Some (inval, subgraph, [Log_invalid_value_id fc Filter filter_id])
     else
     let filter_value = sg_values subgraph ! unat filter_id in
     if v_type filter_value \<noteq> xnn_value_type_dense_tensor then
       Some (inval, subgraph, [Log_unsupported_value_type fc Filter filter_id (v_type filter_value)])
     else if v_data filter_value = None then
       Some (inval, subgraph, [Log_non_static fc Filter filter_id])
     else
     (case filter_datatype_switch cfg filter_id filter_value of
       None \<Rightarrow>
         Some (inval, subgraph,
               [Log_unsupported_datatype fc Filter filter_id (v_datatype filter_value)])
     | Some lg \<Rightarrow>
     (if bias_id \<noteq> XNN_INVALID_VALUE_ID \<and> unat bias_id \<ge> num_values subgraph then
       Some (inval, subgraph, lg @ [Log_invalid_value_id fc Bias bias_id])
     else if bias_id \<noteq> XNN_INVALID_VALUE_ID
          \<and> v_type (sg_values subgraph ! unat bias_id) \<noteq> xnn_value_type_dense_tensor then
       Some (inval, subgraph,
             lg @ [Log_unsupported_value_type fc Bias bias_id
                     (v_type (sg_values subgraph ! unat bias_id))])
     else if bias_id \<noteq> XNN_INVALID_VALUE_ID
          \<and> v_data (sg_values subgraph ! unat bias_id) = None then
       Some (inval, subgraph, lg @ [Log_non_static fc Bias bias_id])
     else if bias_id \<noteq> XNN_INVALID_VALUE_ID
          \<and> \<not> bias_datatype_switch cfg (v_datatype (sg_values subgraph ! unat bias_id)) then
       Some (inval, subgraph,
             lg @ [Log_unsupported_datatype fc Bias bias_id
                     (v_datatype (sg_values subgraph ! unat bias_id))])
     else
     let bias_value =
           (if bias_id \<noteq> XNN_INVALID_VALUE_ID then Some (sg_values subgraph ! unat bias_id)
            else None) in
     if unat output_id \<ge> num_values subgraph then
       Some (inval, subgraph, lg @ [Log_invalid_value_id fc Output output_id])
     else
     let output_value = sg_values subgraph ! unat output_id in
     if v_type output_value \<noteq> xnn_value_type_dense_tensor then
       Some (inval, subgraph,
             lg @ [Log_unsupported_value_type fc Output output_id (v_type output_value)])
     else if \<not> activation_datatype_switch cfg (v_datatype output_value) then
       Some (inval, subgraph,
             lg @ [Log_unsupported_datatype fc Output output_id (v_datatype output_value)])
     else
     (case datatypes_check cfg input_value filter_value bias_value output_value of
       None \<Rightarrow> None
     | Some (Some entry) \<Rightarrow> Some (inval, subgraph, lg @ [entry])
     | Some None \<Rightarrow>
     (case xnn_subgraph_new_node alloc_ok subgraph of
       (subgraph', None) \<Rightarrow> Some (xnn_status_out_of_memory, subgraph', lg)
     | (subgraph', Some k) \<Rightarrow>
         Some (xnn_status_success,
               subgraph' \<lparr> sg_nodes := (sg_nodes subgraph')
                   [k := fill_node output_min output_max input_id filter_id bias_id output_id flags
                           (sg_nodes subgraph' ! k)] \<rparr>,
               lg))))))"

subsection \<open>Predicates and inputs used in the statements\<close>

text \<open>C's \<^verbatim>\<open><\<close> on floats.\<close>

fun float_lt :: "float \<Rightarrow> float \<Rightarrow> bool" where
  "float_lt NaN _ = False"
| "float_lt _ NaN = False"
| "float_lt PosInf _ = False"
| "float_lt _ NegInf = False"
| "float_lt NegInf _ = True"
| "float_lt (Finite x) (Finite y) = (x < y)"
| "float_lt (Finite x) PosInf = True"

text \<open>
  What the function demands of the input and of the output operand (the id names a Value, the
  Value is a dense tensor, its datatype has a \<^verbatim>\<open>case\<close> label), of the filter operand (in
  addition, static data), and what the claim about the bias operand lists.
\<close>

definition activation_valid :: "build_config \<Rightarrow> xnn_subgraph \<Rightarrow> 32 word \<Rightarrow> bool" where
  "activation_valid cfg subgraph vid =
    (unat vid < num_values subgraph
     \<and> v_type (sg_values subgraph ! unat vid) = xnn_value_type_dense_tensor
     \<and> activation_datatype_switch cfg (v_datatype (sg_values subgraph ! unat vid)))"

definition filter_valid :: "build_config \<Rightarrow> xnn_subgraph \<Rightarrow> 32 word \<Rightarrow> bool" where
  "filter_valid cfg subgraph vid =
    (unat vid < num_values subgraph
     \<and> v_type (sg_values subgraph ! unat vid) = xnn_value_type_dense_tensor
     \<and> v_data (sg_values subgraph ! unat vid) \<noteq> None
     \<and> filter_datatype_switch cfg vid (sg_values subgraph ! unat vid) \<noteq> None)"

definition bias_valid :: "xnn_subgraph \<Rightarrow> 32 word \<Rightarrow> bool" where
  "bias_valid subgraph vid =
    (unat vid < num_values subgraph
     \<and> v_type (sg_values subgraph ! unat vid) = xnn_value_type_dense_tensor
     \<and> v_data (sg_values subgraph ! unat vid) \<noteq> None
     \<and> (v_datatype (sg_values subgraph ! unat vid) = xnn_datatype_fp32
        \<or> v_datatype (sg_values subgraph ! unat vid) = xnn_datatype_qint32))"

text \<open>Two small graphs of three Values each: input (id 0), static filter (id 1), output
  (id 2).  The filter of \<open>qint8_graph\<close> has zero point 1.\<close>

definition fp32_tensor :: "nat option \<Rightarrow> xnn_value" where
  "fp32_tensor d =
    \<lparr> v_type = xnn_value_type_dense_tensor, v_datatype = xnn_datatype_fp32, v_zero_point = 0,
      v_scale = Finite 1, v_dim = [2, 2], v_data = d \<rparr>"

definition qint8_tensor :: "32 word \<Rightarrow> nat option \<Rightarrow> xnn_value" where
  "qint8_tensor zp d =
    \<lparr> v_type = xnn_value_type_dense_tensor, v_datatype = xnn_datatype_qint8, v_zero_point = zp,
      v_scale = Finite 1, v_dim = [2, 2], v_data = d \<rparr>"

definition fp32_graph :: xnn_subgraph where
  "fp32_graph = \<lparr> sg_values = [fp32_tensor None, fp32_tensor (Some 4096), fp32_tensor None],
                   sg_nodes = [] \<rparr>"

definition qint8_graph :: xnn_subgraph where
  "qint8_graph =
    \<lparr> sg_values = [qint8_tensor 0 None, qint8_tensor 1 (Some 4096), qint8_tensor 0 None],
      sg_nodes = [] \<rparr>"

section \<open>Reduction kernel: row sum with scale, accumulated into the output\<close>

text \<open>
  Source: \<^verbatim>\<open>src/f16-f32acc-rdsum/gen/f16-f32acc-rdsum-7p7x-minmax-neonfp16arith-c32.c\<close>,
  the function \<^verbatim>\<open>xnn_f16_f32acc_rdsum_ukernel_7p7x__neonfp16arith_c32\<close>.
\<close>

subsection \<open>Floating-point arithmetic and vector registers\<close>

text \<open>
  The kernel touches half-precision and single-precision numbers only through five NEON
  operations and the constant \<^verbatim>\<open>0.f\<close>.  What these compute on one lane is a parameter of
  the model: \<open>'h\<close> is what a 16-bit storage element holds, \<open>'s\<close> is a single-precision
  number.  Nothing is assumed about the operations; where a statement needs a property of
  them, the property is a hypothesis of that statement.
\<close>

record ('h, 's) fp16_arith =
  cvt_f32_f16 :: "'h \<Rightarrow> 's"
  cvt_f16_f32 :: "'s \<Rightarrow> 'h"
  add_f32 :: "'s \<Rightarrow> 's \<Rightarrow> 's"
  mul_f32 :: "'s \<Rightarrow> 's \<Rightarrow> 's"
  add_f16 :: "'h \<Rightarrow> 'h \<Rightarrow> 'h"
  zero_f32 :: 's

text \<open>
  A vector register is the list of its lanes: four lanes for \<^verbatim>\<open>float32x4_t\<close>,
  \<^verbatim>\<open>float16x4_t\<close> and \<^verbatim>\<open>uint16x4_t\<close>.  The reinterpreting casts
  (\<^verbatim>\<open>vreinterpret_f16_u16\<close> and the like) do not change a register and are left out.
  The input and the \<^verbatim>\<open>zero\<close> buffer are read through \<open>rd\<close>: \<open>rd a\<close> is the 16-bit
  element at byte address \<open>a\<close>.  Pointers are byte addresses, natural numbers; an address
  computation that would wrap around \<^verbatim>\<open>uintptr_t\<close> is outside the model.
\<close>

definition vdupq_n_f32 :: "'s \<Rightarrow> 's list" where
  "vdupq_n_f32 x = replicate 4 x"

definition vld1_u16 :: "(nat \<Rightarrow> 'h) \<Rightarrow> nat \<Rightarrow> 'h list" where
  "vld1_u16 rd p = map (\<lambda>l. rd (p + 2 * l)) [0..<4]"

definition vcvt_f32_f16 :: "('h, 's) fp16_arith \<Rightarrow> 'h list \<Rightarrow> 's list" where
  "vcvt_f32_f16 fp v = map (cvt_f32_f16 fp) v"

definition vcvt_f16_f32 :: "('h, 's) fp16_arith \<Rightarrow> 's list \<Rightarrow> 'h list" where
  "vcvt_f16_f32 fp v = map (cvt_f16_f32 fp) v"

definition vaddq_f32 :: "('h, 's) fp16_arith \<Rightarrow> 's list \<Rightarrow> 's list \<Rightarrow> 's list" where
  "vaddq_f32 fp a b = map (\<lambda>l. add_f32 fp (a ! l) (b ! l)) [0..<4]"

definition vmulq_f32 :: "('h, 's) fp16_arith \<Rightarrow> 's list \<Rightarrow> 's list \<Rightarrow> 's list" where
  "vmulq_f32 fp a b = map (\<lambda>l. mul_f32 fp (a ! l) (b ! l)) [0..<4]"

definition vadd_f16 :: "('h, 's) fp16_arith \<Rightarrow> 'h list \<Rightarrow> 'h list \<Rightarrow> 'h list" where
  "vadd_f16 fp a b = map (\<lambda>l. add_f16 fp (a ! l) (b ! l)) [0..<4]"

text \<open>\<^verbatim>\<open>vext_f16(a, b, n)\<close>: the lanes of \<open>a\<close> from lane \<open>n\<close> on, then the first \<open>n\<close>
  lanes of \<open>b\<close>.\<close>

definition vext_f16 :: "'h list \<Rightarrow> 'h list \<Rightarrow> nat \<Rightarrow> 'h list" where
  "vext_f16 a b n = drop n a @ take n b"

subsection \<open>The output buffer\<close>

text \<open>
  The output is a buffer of 16-bit elements, \<open>buf\<close>; \<open>optr\<close> is the pointer
  \<^verbatim>\<open>output\<close> as an element index into it (the kernel moves it by whole elements only).
  A load or a store that is not wholly inside the buffer has no defined result: the
  operation returns \<open>None\<close>, and so does the kernel.  \<open>stores\<close> records every store as the
  pair of its first element index and its width in elements; it is there for the statements
  about which elements are written and plays no part in the computation.
\<close>

record 'h out_state =
  buf :: "'h list"
  optr :: nat
  stores :: "(nat \<times> nat) list"

definition out_load :: "'h out_state \<Rightarrow> nat \<Rightarrow> nat \<Rightarrow> 'h list option" where
  "out_load st p n = (if p + n \<le> length (buf st) then Some (take n (drop p (buf st))) else None)"

definition out_store :: "'h out_state \<Rightarrow> nat \<Rightarrow> 'h list \<Rightarrow> 'h out_state option" where
  "out_store st p vs =
    (if p + length vs \<le> length (buf st) then
       Some (st \<lparr> buf := take p (buf st) @ vs @ drop (p + length vs) (buf st),
                  stores := stores st @ [(p, length vs)] \<rparr>)
     else None)"

text \<open>The loads and stores on the output that the kernel uses: four lanes
  (\<^verbatim>\<open>vld1_u16\<close>, \<^verbatim>\<open>vst1_u16\<close>), two elements duplicated into both halves and lane 0
  of the 32-bit view (\<^verbatim>\<open>vld1_dup_u32\<close>, \<^verbatim>\<open>vst1_lane_u32\<close>), one element duplicated
  into all lanes and lane 0 (\<^verbatim>\<open>vld1_dup_u16\<close>, \<^verbatim>\<open>vst1_lane_u16\<close>).\<close>

definition out_vld1_u16 :: "'h out_state \<Rightarrow> nat \<Rightarrow> 'h list option" where
  "out_vld1_u16 st p = out_load st p 4"

definition vst1_u16 :: "'h out_state \<Rightarrow> nat \<Rightarrow> 'h list \<Rightarrow> 'h out_state option" where
  "vst1_u16 st p v = out_store st p v"

definition vld1_dup_u32 :: "'h out_state \<Rightarrow> nat \<Rightarrow> 'h list option" where
  "vld1_dup_u32 st p = map_option (\<lambda>v. v @ v) (out_load st p 2)"

definition vst1_lane_u32 :: "'h out_state \<Rightarrow> nat \<Rightarrow> 'h list \<Rightarrow> 'h out_state option" where
  "vst1_lane_u32 st p v = out_store st p (take 2 v)"

definition vld1_dup_u16 :: "'h out_state \<Rightarrow> nat \<Rightarrow> 'h list option" where
  "vld1_dup_u16 st p = map_option (\<lambda>v. replicate 4 (v ! 0)) (out_load st p 1)"

definition vst1_lane_u16 :: "'h out_state \<Rightarrow> nat \<Rightarrow> 'h list \<Rightarrow> 'h out_state option" where
  "vst1_lane_u16 st p v = out_store st p (take 1 v)"

subsection \<open>Integers of the kernel\<close>

text \<open>Modelled from the spec: \<^verbatim>\<open>round_up_po2\<close> of \<^verbatim>\<open>xnnpack/math.h\<close> (not among the
  sources at hand), which rounds its first argument up to a multiple of its second, a power
  of two (section 4.3 speaks of a depth rounded up to a multiple of 8).\<close>

definition round_up_po2 :: "nat \<Rightarrow> nat \<Rightarrow> nat" where
  "round_up_po2 n q = ((n + q - 1) div q) * q"

text \<open>
  The row counter is declared \<^verbatim>\<open>int r = rows\<close> with \<^verbatim>\<open>rows\<close> a
  \<^verbatim>\<open>size_t\<close>: the conversion keeps the low 32 bits and reads them as two's complement
  (what GCC and Clang define for an out-of-range conversion to a signed type).
\<close>

definition int_of_size_t :: "nat \<Rightarrow> int" where
  "int_of_size_t n = sint (word_of_nat n :: 32 word)"

subsection \<open>The loop over groups of seven rows\<close>

text \<open>
  The six \<^verbatim>\<open>if XNN_UNPREDICTABLE(...)\<close> statements at the head of the loop body, on the
  list \<open>i\<close> of the seven row pointers \<^verbatim>\<open>i0\<close>, ..., \<^verbatim>\<open>i6\<close>.
\<close>

definition redirect :: "int \<Rightarrow> nat \<Rightarrow> nat list \<Rightarrow> nat list" where
  "redirect r zero i =
    [i ! 0,
     if r < 2 then zero else i ! 1,
     if r \<le> 2 then zero else i ! 2,
     if r < 4 then zero else i ! 3,
     if r \<le> 4 then zero else i ! 4,
     if r < 6 then zero else i ! 5,
     if r \<le> 6 then zero else i ! 6]"

text \<open>
  \<^verbatim>\<open>for (int r = rows; r > 0; r -= 7)\<close>.  Both copies of the loop in the source have this
  shape: redirect the pointers, add the seven rows into the accumulators (\<open>body\<close>), advance
  every pointer by \<^verbatim>\<open>input_increment\<close>.  \<open>vacc\<close> is the list of the eight accumulator
  registers.
\<close>

function row_loop ::
  "(nat list \<Rightarrow> 's list list \<Rightarrow> 's list list) \<Rightarrow> nat \<Rightarrow> nat \<Rightarrow> int \<Rightarrow> nat list \<Rightarrow> 's list list
   \<Rightarrow> 's list list"
where
  "row_loop body zero input_increment r i vacc =
    (if r > 0 then
       (let i = redirect r zero i;
            vacc = body i vacc;
            i = map (\<lambda>p. p + input_increment) i
        in row_loop body zero input_increment (r - 7) i vacc)
     else vacc)"
  by pat_completeness auto
termination
  by (relation "measure (\<lambda>(body, zero, input_increment, r, i, vacc). nat r)") auto

declare row_loop.simps [simp del]

text \<open>
  The loop body of the 32-channel path (lines 81 to 192): for each row pointer in turn, the
  eight loads \<^verbatim>\<open>&i[0]\<close>, \<^verbatim>\<open>&i[4]\<close>, ..., \<^verbatim>\<open>&i[28]\<close> and the eight additions
  \<^verbatim>\<open>vacc = vaddq_f32(vin, vacc)\<close>.
\<close>

definition accumulate32 ::
  "('h, 's) fp16_arith \<Rightarrow> (nat \<Rightarrow> 'h) \<Rightarrow> nat list \<Rightarrow> 's list list \<Rightarrow> 's list list"
where
  "accumulate32 fp rd i vacc =
    foldl (\<lambda>vacc p. map (\<lambda>j. vaddq_f32 fp (vcvt_f32_f16 fp (vld1_u16 rd (p + 2 * (4 * j))))
                                 (vacc ! j)) [0..<8])
      vacc i"

text \<open>
  The loop body of the remainder path (lines 278 to 286):
  \<^verbatim>\<open>for (int i = 0; i < num_chunks; ++i)\<close>, and for each chunk the seven additions, one per
  row pointer.
\<close>

definition accumulate_chunks ::
  "('h, 's) fp16_arith \<Rightarrow> (nat \<Rightarrow> 'h) \<Rightarrow> nat \<Rightarrow> nat list \<Rightarrow> 's list list \<Rightarrow> 's list list"
where
  "accumulate_chunks fp rd num_chunks i vacc =
    map (\<lambda>j. if j < num_chunks then
               foldl (\<lambda>v p. vaddq_f32 fp (vcvt_f32_f16 fp (vld1_u16 rd (p + 2 * (j * 4)))) v)
                 (vacc ! j) i
             else vacc ! j) [0..<8]"

subsection \<open>Reading and writing the output\<close>

text \<open>\<open>n\<close> loads of four elements through the pointer \<^verbatim>\<open>o\<close>, which moves by four
  elements after each; the stores of a list of registers through \<^verbatim>\<open>output\<close>, which moves
  by \<^verbatim>\<open>4 * sizeof(uint16_t)\<close> bytes after each.\<close>

fun load_chunks :: "'h out_state \<Rightarrow> nat \<Rightarrow> nat \<Rightarrow> 'h list list option" where
  "load_chunks st q 0 = Some []"
| "load_chunks st q (Suc n) =
     do { v \<leftarrow> out_vld1_u16 st q; vs \<leftarrow> load_chunks st (q + 4) n; Some (v # vs) }"

fun store_chunks :: "'h out_state \<Rightarrow> 'h list list \<Rightarrow> 'h out_state option" where
  "store_chunks st [] = Some st"
| "store_chunks st (v # vs) =
     do { st \<leftarrow> vst1_u16 st (optr st) v; store_chunks (st \<lparr> optr := optr st + 4 \<rparr>) vs }"

subsection \<open>The kernel\<close>

text \<open>
  One pass of \<^verbatim>\<open>for (; channels >= 32; channels -= 32)\<close>, lines 37 to 234: the row loop on
  eight accumulators, the scaling, and \<^verbatim>\<open>vadd_f16(vo, vcvt_f16_f32(vacc))\<close> stored over the
  32 output elements at \<^verbatim>\<open>output\<close>.
\<close>

definition rdsum_block32 ::
  "('h, 's) fp16_arith \<Rightarrow> (nat \<Rightarrow> 'h) \<Rightarrow> nat \<Rightarrow> nat \<Rightarrow> nat \<Rightarrow> nat \<Rightarrow> 's \<Rightarrow> 'h out_state
   \<Rightarrow> 'h out_state option"
where
  "rdsum_block32 fp rd rows input input_stride zero scale st =
    (let vscale = vdupq_n_f32 scale;
         input_increment = 7 * input_stride;
         i = map (\<lambda>k. input + k * input_stride) [0..<7];
         vacc = replicate 8 (vdupq_n_f32 (zero_f32 fp));
         vacc = row_loop (accumulate32 fp rd) zero input_increment (int_of_size_t rows) i vacc;
         vacc = map (\<lambda>j. vmulq_f32 fp (vacc ! j) vscale) [0..<8]
     in do {
       vo \<leftarrow> load_chunks st (optr st) 8;
       let vfp16_out = map (\<lambda>j. vadd_f16 fp (vo ! j) (vcvt_f16_f32 fp (vacc ! j))) [0..<8];
       store_chunks st vfp16_out
     })"

text \<open>
  Lines 312 to 321, after the full chunks of the remainder have been stored: \<open>channels\<close> is
  \<^verbatim>\<open>channels & 0x3\<close>; a store of two elements when bit 1 is set, with the register rotated
  by two lanes afterwards, and a store of one element when bit 0 is set.  Here the old
  output is the second operand of \<^verbatim>\<open>vadd_f16\<close>.
\<close>

definition store_tail ::
  "('h, 's) fp16_arith \<Rightarrow> 'h list \<Rightarrow> nat \<Rightarrow> 'h out_state \<Rightarrow> 'h out_state option"
where
  "store_tail fp vacc_low channels st =
    do {
      (st, vacc_low) \<leftarrow>
        (if channels AND 2 \<noteq> 0 then do {
           d \<leftarrow> vld1_dup_u32 st (optr st);
           st \<leftarrow> vst1_lane_u32 st (optr st) (vadd_f16 fp vacc_low d);
           Some (st \<lparr> optr := optr st + 2 \<rparr>, vext_f16 vacc_low vacc_low 2)
         } else Some (st, vacc_low));
      if channels AND 1 \<noteq> 0 then do {
        d \<leftarrow> vld1_dup_u16 st (optr st);
        vst1_lane_u16 st (optr st) (vadd_f16 fp vacc_low d)
      } else Some st
    }"

text \<open>The block \<^verbatim>\<open>if (channels != 0) { ... }\<close>, lines 238 to 322.\<close>

definition rdsum_remainder ::
  "('h, 's) fp16_arith \<Rightarrow> (nat \<Rightarrow> 'h) \<Rightarrow> nat \<Rightarrow> nat \<Rightarrow> nat \<Rightarrow> nat \<Rightarrow> nat \<Rightarrow> 's \<Rightarrow> 'h out_state
   \<Rightarrow> 'h out_state option"
where
  "rdsum_remainder fp rd rows channels input input_stride zero scale st =
    (let vscale = vdupq_n_f32 scale;
         input_increment = 7 * input_stride;
         i = map (\<lambda>k. input + k * input_stride) [0..<7];
         vacc = replicate 8 (vdupq_n_f32 (zero_f32 fp));
         num_chunks = drop_bit 2 (round_up_po2 channels 4);
         num_full_chunks = drop_bit 2 channels;
         vacc = row_loop (accumulate_chunks fp rd num_chunks) zero input_increment
                  (int_of_size_t rows) i vacc;
         vacc = map (\<lambda>j. if j < drop_bit 2 (channels + 4) then vmulq_f32 fp (vacc ! j) vscale
                          else vacc ! j) [0..<8]
     in do {
       vo \<leftarrow> load_chunks st (optr st) num_full_chunks;
       let vfp16_out = map (\<lambda>j. vadd_f16 fp (vo ! j) (vcvt_f16_f32 fp (vacc ! j)))
                         [0..<num_full_chunks];
       st \<leftarrow> store_chunks st vfp16_out;
       let pos = drop_bit 2 channels;
       let channels = channels AND 3;
       let vacc_low = vcvt_f16_f32 fp (vacc ! pos);
       store_tail fp vacc_low channels st
     })"

text \<open>
  The kernel: the loop over blocks of 32 channels, then the remainder.  \<open>scale\<close> is
  \<^verbatim>\<open>params->scalar.scale\<close>.  The assertions of the source (\<^verbatim>\<open>rows != 0\<close>,
  \<^verbatim>\<open>channels != 0\<close>, non-null pointers) are conditions on the caller and appear as
  hypotheses where a statement needs them.
\<close>

function xnn_f16_f32acc_rdsum_ukernel_7p7x__neonfp16arith_c32 ::
  "('h, 's) fp16_arith \<Rightarrow> (nat \<Rightarrow> 'h) \<Rightarrow> nat \<Rightarrow> nat \<Rightarrow> nat \<Rightarrow> nat \<Rightarrow> nat \<Rightarrow> 's \<Rightarrow> 'h out_state
   \<Rightarrow> 'h out_state option"
where
  "xnn_f16_f32acc_rdsum_ukernel_7p7x__neonfp16arith_c32 fp rd rows channels input input_stride
      zero scale st =
    (if channels \<ge> 32 then do {
       st \<leftarrow> rdsum_block32 fp rd rows input input_stride zero scale st;
       xnn_f16_f32acc_rdsum_ukernel_7p7x__neonfp16arith_c32 fp rd rows (channels - 32)
         (input + 32 * 2) input_stride zero scale st
     }
     else if channels \<noteq> 0 then
       rdsum_remainder fp rd rows channels input input_stride zero scale st
     else Some st)"
  by pat_completeness auto
termination
  by (relation "measure (\<lambda>(fp, rd, rows, channels, input, input_stride, zero, scale, st). channels)")
     auto

declare xnn_f16_f32acc_rdsum_ukernel_7p7x__neonfp16arith_c32.simps [simp del]

subsection \<open>What the kernel is compared with\<close>

text \<open>
  \<open>lane_acc\<close>: one accumulator lane after the additions of one group, for the lane of channel
  \<open>c\<close> and the row pointers \<open>ps\<close>.  \<open>row_sum\<close>: the single-precision sum over the rows
  \<open>0, ..., n - 1\<close> of channel \<open>c\<close>, added in row order onto \<open>a\<close>, as
  \<^verbatim>\<open>vaddq_f32(vin, vacc)\<close> adds them.  \<open>zero_neutral\<close>: adding element \<open>c\<close> of the
  \<^verbatim>\<open>zero\<close> buffer changes no accumulator.  \<open>out_value\<close>: the old output plus the narrowed,
  scaled row sum.  \<open>written b p n f\<close>: the buffer \<open>b\<close> with the \<open>n\<close> elements from index \<open>p\<close>
  replaced, element \<open>p + c\<close> by \<open>f c\<close> of its old value.  \<open>rdsum_stores p channels\<close>: stores of
  four elements for every full group of four, then a store of two and a store of one as the
  two low bits of \<open>channels\<close> say.
\<close>

definition lane_acc :: "('h, 's) fp16_arith \<Rightarrow> (nat \<Rightarrow> 'h) \<Rightarrow> nat \<Rightarrow> nat list \<Rightarrow> 's \<Rightarrow> 's" where
  "lane_acc fp rd c ps a = foldl (\<lambda>a p. add_f32 fp (cvt_f32_f16 fp (rd (p + 2 * c))) a) a ps"

definition row_sum :: "('h, 's) fp16_arith \<Rightarrow> (nat \<Rightarrow> 'h) \<Rightarrow> nat \<Rightarrow> nat \<Rightarrow> nat \<Rightarrow> nat \<Rightarrow> 's \<Rightarrow> 's" where
  "row_sum fp rd base stride c n a =
    foldl (\<lambda>a t. add_f32 fp (cvt_f32_f16 fp (rd (base + t * stride + 2 * c))) a) a [0..<n]"

definition zero_neutral :: "('h, 's) fp16_arith \<Rightarrow> (nat \<Rightarrow> 'h) \<Rightarrow> nat \<Rightarrow> nat \<Rightarrow> bool" where
  "zero_neutral fp rd zero c = (\<forall>a. add_f32 fp (cvt_f32_f16 fp (rd (zero + 2 * c))) a = a)"

definition out_value ::
  "('h, 's) fp16_arith \<Rightarrow> (nat \<Rightarrow> 'h) \<Rightarrow> nat \<Rightarrow> nat \<Rightarrow> nat \<Rightarrow> 's \<Rightarrow> nat \<Rightarrow> 'h \<Rightarrow> 'h"
where
  "out_value fp rd rows input input_stride scale c old =
    add_f16 fp old
      (cvt_f16_f32 fp (mul_f32 fp (row_sum fp rd input input_stride c rows (zero_f32 fp)) scale))"

definition written :: "'h list \<Rightarrow> nat \<Rightarrow> nat \<Rightarrow> (nat \<Rightarrow> 'h \<Rightarrow> 'h) \<Rightarrow> 'h list" where
  "written b p n f = take p b @ map (\<lambda>c. f c (b ! (p + c))) [0..<n] @ drop (p + n) b"

definition rdsum_stores :: "nat \<Rightarrow> nat \<Rightarrow> (nat \<times> nat) list" where
  "rdsum_stores p channels =
    map (\<lambda>j. (p + 4 * j, 4)) [0..<channels div 4]
    @ (if 2 \<le> channels mod 4 then [(p + 4 * (channels div 4), 2)] else [])
    @ (if odd channels then [(p + channels - 1, 1)] else [])"

text \<open>
  An arithmetic to run the kernel on: integers, every operation exact.  On integer inputs of
  small magnitude the binary16 and binary32 operations are exact as well, so on such inputs
  this arithmetic computes what the hardware computes.  \<open>ramp_input\<close> is a memory whose
  element at byte address \<open>a\<close> is \<open>a\<close> below address 1000 and 0 from there on (where the
  \<^verbatim>\<open>zero\<close> buffer is put); \<open>one_hot_input\<close> holds 1 at address 64 and 0 elsewhere.
\<close>

definition int_arith :: "(int, int) fp16_arith" where
  "int_arith = \<lparr> cvt_f32_f16 = (\<lambda>x. x), cvt_f16_f32 = (\<lambda>x. x), add_f32 = (+), mul_f32 = (*),
                 add_f16 = (+), zero_f32 = 0 \<rparr>"

definition ramp_input :: "nat \<Rightarrow> int" where
  "ramp_input a = (if a < 1000 then int a else 0)"

definition one_hot_input :: "nat \<Rightarrow> int" where
  "one_hot_input a = (if a = 64 then 1 else 0)"

subsection \<open>Rounding\<close>






text \<open>
  An arithmetic with the range of half precision, on integers: \<open>None\<close> stands for a value that
  is not finite (an infinity or a NaN).  \<open>binary16\<close> rounds an integer to the 11 significant
  bits of half precision, to the nearest, ties to the even significand, and gives \<open>None\<close> from
  65520 on, as the narrowing conversion and the half-precision addition do.  The
  single-precision operations are exact, as they are on integers below \<open>2^24\<close>.
  \<open>cancelling_input\<close> holds 1 in the rows 0 and 1 and -1 in the rows 2 and 3 of a one-channel
  input at address 64, and 0 elsewhere.
\<close>

definition half_quantum :: "nat \<Rightarrow> nat" where
  "half_quantum a =
    (if a < 2048 then 1 else if a < 4096 then 2 else if a < 8192 then 4
     else if a < 16384 then 8 else if a < 32768 then 16 else 32)"

definition binary16 :: "int \<Rightarrow> int option" where
  "binary16 x =
    (let a = nat \<bar>x\<bar>; q = half_quantum a; m = a div q; r = a mod q;
         m' = (if q < 2 * r \<or> (2 * r = q \<and> odd m) then m + 1 else m);
         y = sgn x * int (m' * q)
     in if \<bar>y\<bar> < 65520 then Some y else None)"




section \<open>Matrix product kernel: dynamically quantized input, weights quantized by column\<close>

text \<open>
  The source is \<^verbatim>\<open>src/qd8-f32-qc8w-gemm/gen/qd8-f32-qc8w-gemm-4x8c8-minmax-wasmsdot-u2.c\<close>.
  \<^verbatim>\<open>round_up_po2\<close> is the one of the reduction kernel.
\<close>

subsection \<open>Lanes and vector registers\<close>




















subsection \<open>Loads through the weight pointer, stores to the output\<close>








subsection \<open>The kernel\<close>






text \<open>
  Lines 68 to 201: the accumulators are set, the two loops run over \<^verbatim>\<open>kc\<close>, and the pairs of
  lanes of each accumulator are added, which gives one 32-bit sum for each row and column.
\<close>










subsection \<open>What the kernel is compared with\<close>









text \<open>
  The address of the output element of row \<open>m\<close> and column \<open>n\<close>, and the hypothesis, which
  can be computed, that these addresses are different for different elements.
\<close>

definition c_addr :: "nat \<Rightarrow> nat \<Rightarrow> nat \<Rightarrow> nat \<Rightarrow> nat \<Rightarrow> nat" where
  "c_addr c cm_stride cn_stride m n = c + m * cm_stride + (n div 8) * cn_stride + 4 * (n mod 8)"





subsection \<open>Auxiliary notions\<close>









definition writes_cols ::
  "nat \<Rightarrow> nat \<Rightarrow> nat \<Rightarrow> nat \<Rightarrow> ((nat \<Rightarrow> 's) \<Rightarrow> (nat \<Rightarrow> 's)) \<Rightarrow> nat \<Rightarrow> nat \<Rightarrow> (nat \<Rightarrow> nat \<Rightarrow> 's) \<Rightarrow> bool"
where
  "writes_cols c cm_stride cn_stride mr f n0 J V =
    (\<forall>mem.
       (\<forall>m<mr. \<forall>j<J. f mem (c_addr c cm_stride cn_stride m (n0 + j)) = V m j)
       \<and> (\<forall>x. (\<forall>m<mr. \<forall>j<J. x \<noteq> c_addr c cm_stride cn_stride m (n0 + j)) \<longrightarrow> f mem x = mem x))"


subsection \<open>Inputs used in the statements\<close>






section \<open>Properties of the graph layer\<close>

subsection \<open>Auxiliary facts\<close>

lemma activation_switch_check_without_bias:
  "activation_datatype_switch cfg dt \<Longrightarrow> check_datatypes_without_bias cfg a b dt \<noteq> None"
  by (auto simp: activation_datatype_switch_def check_datatypes_without_bias_def)

lemma activation_switch_check_with_bias:
  "activation_datatype_switch cfg dt \<Longrightarrow> check_datatypes_with_bias cfg a b c dt \<noteq> None"
  by (auto simp: activation_datatype_switch_def check_datatypes_with_bias_def)

lemma datatypes_check_reachable:
  "activation_datatype_switch cfg (v_datatype ov)
   \<Longrightarrow> (datatypes_check cfg iv fv bv ov = None) = False"
  using activation_switch_check_without_bias activation_switch_check_with_bias
  by (auto simp: datatypes_check_def split: option.splits)

lemma new_node_failure:
  "xnn_subgraph_new_node alloc_ok subgraph = (subgraph', None) \<Longrightarrow> subgraph' = subgraph"
  by (auto simp: xnn_subgraph_new_node_def split: if_splits)

text \<open>No \<^verbatim>\<open>XNN_UNREACHABLE\<close> is ever reached: the output datatype has passed its
  \<^verbatim>\<open>switch\<close> before a datatype check is called.\<close>

lemma define_never_unreachable:
  "xnn_define_fully_connected cfg init_flags alloc_ok subgraph output_min output_max
      input_id filter_id bias_id output_id flags = None \<Longrightarrow> False"
  by (simp add: xnn_define_fully_connected_def Let_def datatypes_check_reachable
           split: if_split_asm option.split_asm prod.split_asm)

lemma define_failure_unchanged:
  assumes "xnn_define_fully_connected cfg init_flags alloc_ok subgraph output_min output_max
      input_id filter_id bias_id output_id flags = Some (status, subgraph', lg)"
    and "status \<noteq> xnn_status_success"
  shows "subgraph' = subgraph"
  using assms
  by (simp add: xnn_define_fully_connected_def Let_def new_node_failure
           split: option.split_asm prod.split_asm if_split_asm)

lemma float_lt_not_ge: "float_lt a b \<Longrightarrow> \<not> float_ge a b \<and> \<not> isnan a \<and> \<not> isnan b"
  by (cases a; cases b) auto

lemma unat_invalid_value_id [simp]: "unat XNN_INVALID_VALUE_ID = 4294967295"
  by (simp add: XNN_INVALID_VALUE_ID_def)

lemma bias_switch_datatype:
  "bias_datatype_switch cfg dt \<Longrightarrow> dt = xnn_datatype_fp32 \<or> dt = xnn_datatype_qint32"
  by (auto simp: bias_datatype_switch_def)

lemmas graph_defs = fp32_graph_def qint8_graph_def fp32_tensor_def qint8_tensor_def
  default_build_def num_values_def num_nodes_def XNN_INIT_FLAG_XNNPACK_def
  activation_datatype_switch_def filter_datatype_switch_def bias_datatype_switch_def
  datatypes_check_def check_datatypes_with_bias_def check_datatypes_without_bias_def
  xnn_subgraph_new_node_def

lemma define_no_bias:
  assumes "init_flags AND XNN_INIT_FLAG_XNNPACK \<noteq> 0"
    and "float_lt output_min output_max"
    and "activation_valid cfg subgraph input_id"
    and "filter_valid cfg subgraph filter_id"
    and "activation_valid cfg subgraph output_id"
  shows "\<exists>subgraph' lg.
      xnn_define_fully_connected cfg init_flags alloc_ok subgraph output_min output_max
        input_id filter_id XNN_INVALID_VALUE_ID output_id flags
      = Some (if check_datatypes_without_bias cfg
                   (v_datatype (sg_values subgraph ! unat input_id))
                   (v_datatype (sg_values subgraph ! unat filter_id))
                   (v_datatype (sg_values subgraph ! unat output_id)) = Some True
              then (if alloc_ok then xnn_status_success else xnn_status_out_of_memory)
              else xnn_status_invalid_parameter, subgraph', lg)
      \<and> (subgraph' \<noteq> subgraph \<longrightarrow>
            num_nodes subgraph' = num_nodes subgraph + 1
            \<and> n_num_inputs (last (sg_nodes subgraph')) = 2)"
  using assms float_lt_not_ge [of output_min output_max]
    activation_switch_check_without_bias [of cfg "v_datatype (sg_values subgraph ! unat output_id)"
       "v_datatype (sg_values subgraph ! unat input_id)"
       "v_datatype (sg_values subgraph ! unat filter_id)"]
  by (auto simp: xnn_define_fully_connected_def Let_def fill_node_def activation_valid_def
      filter_valid_def datatypes_check_def xnn_subgraph_new_node_def num_nodes_def)

lemma define_bad_bias:
  assumes "init_flags AND XNN_INIT_FLAG_XNNPACK \<noteq> 0"
    and "bias_id \<noteq> XNN_INVALID_VALUE_ID"
    and "\<not> bias_valid subgraph bias_id"
  shows "\<exists>lg.
      xnn_define_fully_connected cfg init_flags alloc_ok subgraph output_min output_max
        input_id filter_id bias_id output_id flags
      = Some (xnn_status_invalid_parameter, subgraph, lg)"
  using assms bias_switch_datatype [of cfg "v_datatype (sg_values subgraph ! unat bias_id)"]
  by (auto simp: xnn_define_fully_connected_def Let_def bias_valid_def
       split: option.splits)

subsection \<open>Claims about the definition function\<close>

text \<open>
  C3.  The claim: a call whose filter Value is \<open>qint8\<close> with a nonzero zero point returns
  invalid-parameter and appends no node.  The code logs the zero point and goes on: in the
  default build, with an initialised library, valid bounds and \<open>qint8\<close> input, filter and
  output, the call on \<open>qint8_graph\<close> (filter zero point 1) returns success, appends a node,
  and the only trace of the zero point is the log line.
\<close>

theorem define_qint8_zero_point_accepted:
  "xnn_define_fully_connected default_build 1 True qint8_graph (Finite (-1)) (Finite 1)
      0 1 XNN_INVALID_VALUE_ID 2 0 =
   Some (xnn_status_success,
         qint8_graph \<lparr> sg_nodes := [fill_node (Finite (-1)) (Finite 1) 0 1 XNN_INVALID_VALUE_ID
                                      2 0 (zero_node 0)] \<rparr>,
         [Log_unsupported_zero_point xnn_node_type_convolution_2d 1 1 xnn_datatype_qint8])"
  by (simp add: xnn_define_fully_connected_def Let_def graph_defs)

text \<open>
  Every call returns a status; when the status is not success, the subgraph after the call
  is the subgraph before it (same nodes, same node count).
\<close>

lemma define_failure_atomic:
  "\<exists>status subgraph' lg.
     xnn_define_fully_connected cfg init_flags alloc_ok subgraph output_min output_max
       input_id filter_id bias_id output_id flags = Some (status, subgraph', lg)
     \<and> (status \<noteq> xnn_status_success \<longrightarrow>
          subgraph' = subgraph \<and> num_nodes subgraph' = num_nodes subgraph)"
proof (cases "xnn_define_fully_connected cfg init_flags alloc_ok subgraph output_min output_max
       input_id filter_id bias_id output_id flags")
  case None
  then show ?thesis using define_never_unreachable by blast
next
  case (Some r)
  obtain status subgraph' lg where r: "r = (status, subgraph', lg)"
    by (cases r) auto
  show ?thesis
    using Some r define_failure_unchanged [of cfg init_flags alloc_ok subgraph output_min
      output_max input_id filter_id bias_id output_id flags status subgraph' lg]
    by auto
qed

text \<open>
  C4.  The claim: a call that does not return success leaves the subgraph as it was, and a
  node is created only after every validation check has passed.  The first part holds
  (\<open>define_failure_atomic\<close>).  The second does not: on \<open>qint8_graph\<close> the check of the filter's
  zero point fails and is logged as a failure to define the node, the function goes on, and
  the call returns success with one node more.  The defect is the one of C3, the missing
  \<^verbatim>\<open>return\<close> after the log line of lines 332 to 339.
\<close>

theorem define_node_after_failed_check:
  "map_option (\<lambda>(status, subgraph', lg). (status, num_nodes subgraph', lg))
     (xnn_define_fully_connected default_build 1 True qint8_graph (Finite (-1)) (Finite 1)
        0 1 XNN_INVALID_VALUE_ID 2 0)
   = Some (xnn_status_success, 1,
           [Log_unsupported_zero_point xnn_node_type_convolution_2d 1 1 xnn_datatype_qint8])
   \<and> num_nodes qint8_graph = 0"
  by (simp add: xnn_define_fully_connected_def Let_def graph_defs)

text \<open>
  C7.  With the library initialised, a NaN lower bound, a NaN upper bound or a lower bound not
  below the upper bound makes the call return invalid-parameter, with the subgraph, and so its
  node count, unchanged.
\<close>

theorem define_rejects_bad_bounds:
  assumes "init_flags AND XNN_INIT_FLAG_XNNPACK \<noteq> 0"
    and "isnan output_min \<or> isnan output_max \<or> float_ge output_min output_max"
  shows "\<exists>subgraph' lg.
      xnn_define_fully_connected cfg init_flags alloc_ok subgraph output_min output_max
        input_id filter_id bias_id output_id flags
        = Some (xnn_status_invalid_parameter, subgraph', lg)
      \<and> subgraph' = subgraph \<and> num_nodes subgraph' = num_nodes subgraph"
  using assms by (auto simp: xnn_define_fully_connected_def Let_def)

theorem define_rejects_bad_bounds_witness:
  "(\<exists>lg. xnn_define_fully_connected default_build 1 True fp32_graph NaN (Finite 1)
        0 1 XNN_INVALID_VALUE_ID 2 0 = Some (xnn_status_invalid_parameter, fp32_graph, lg))
   \<and> (\<exists>lg. xnn_define_fully_connected default_build 1 True fp32_graph (Finite 1) NaN
        0 1 XNN_INVALID_VALUE_ID 2 0 = Some (xnn_status_invalid_parameter, fp32_graph, lg))
   \<and> (\<exists>lg. xnn_define_fully_connected default_build 1 True fp32_graph (Finite 1) (Finite 1)
        0 1 XNN_INVALID_VALUE_ID 2 0 = Some (xnn_status_invalid_parameter, fp32_graph, lg))"
  using define_rejects_bad_bounds [of 1 NaN "Finite 1" default_build True fp32_graph
          0 1 XNN_INVALID_VALUE_ID 2 0]
    define_rejects_bad_bounds [of 1 "Finite 1" NaN default_build True fp32_graph
          0 1 XNN_INVALID_VALUE_ID 2 0]
    define_rejects_bad_bounds [of 1 "Finite 1" "Finite 1" default_build True fp32_graph
          0 1 XNN_INVALID_VALUE_ID 2 0]
  by (simp add: XNN_INIT_FLAG_XNNPACK_def)

text \<open>
  C8.  The claim as stated promises success for every call with an initialised library, valid
  bounds, a dense \<open>fp32\<close> input, a static dense \<open>fp32\<close> filter, a dense \<open>fp32\<close> output and no
  bias.  The function returns out-of-memory when the node cannot be allocated: on
  \<open>fp32_graph\<close>, with the allocation failing, all these conditions hold and the status is
  out-of-memory.
\<close>

theorem define_fp32_no_bias_out_of_memory:
  "xnn_define_fully_connected default_build 1 False fp32_graph (Finite (-1)) (Finite 1)
      0 1 XNN_INVALID_VALUE_ID 2 0 = Some (xnn_status_out_of_memory, fp32_graph, [])"
  by (simp add: xnn_define_fully_connected_def Let_def graph_defs)

text \<open>
  C8, amended.  Under the conditions of the claim and when the node allocation succeeds, the
  call returns success, nothing is logged, and exactly one node is appended: a fully-connected
  node with 2 inputs (the input and the filter id), 1 output, the given bounds and flags, and
  both callbacks bound.
\<close>

theorem define_fp32_no_bias_accepted:
  assumes "init_flags AND XNN_INIT_FLAG_XNNPACK \<noteq> 0"
    and "float_lt output_min output_max"
    and "unat input_id < num_values subgraph"
    and "v_type (sg_values subgraph ! unat input_id) = xnn_value_type_dense_tensor"
    and "v_datatype (sg_values subgraph ! unat input_id) = xnn_datatype_fp32"
    and "unat filter_id < num_values subgraph"
    and "v_type (sg_values subgraph ! unat filter_id) = xnn_value_type_dense_tensor"
    and "v_data (sg_values subgraph ! unat filter_id) \<noteq> None"
    and "v_datatype (sg_values subgraph ! unat filter_id) = xnn_datatype_fp32"
    and "unat output_id < num_values subgraph"
    and "v_type (sg_values subgraph ! unat output_id) = xnn_value_type_dense_tensor"
    and "v_datatype (sg_values subgraph ! unat output_id) = xnn_datatype_fp32"
    and "alloc_ok"
  shows "\<exists>node.
      xnn_define_fully_connected cfg init_flags alloc_ok subgraph output_min output_max
        input_id filter_id XNN_INVALID_VALUE_ID output_id flags
        = Some (xnn_status_success, subgraph \<lparr> sg_nodes := sg_nodes subgraph @ [node] \<rparr>, [])
      \<and> n_type node = xnn_node_type_fully_connected
      \<and> n_num_inputs node = 2 \<and> n_inputs node 0 = input_id \<and> n_inputs node 1 = filter_id
      \<and> n_num_outputs node = 1 \<and> n_outputs node 0 = output_id
      \<and> n_output_min node = output_min \<and> n_output_max node = output_max
      \<and> n_flags node = flags
      \<and> n_create node = Some create_fully_connected_operator
      \<and> n_setup node = Some setup_fully_connected_operator"
  using assms float_lt_not_ge [of output_min output_max]
  by (intro exI [of _ "fill_node output_min output_max input_id filter_id XNN_INVALID_VALUE_ID
        output_id flags (zero_node (length (sg_nodes subgraph)))"])
     (simp add: xnn_define_fully_connected_def Let_def fill_node_def
      activation_datatype_switch_def filter_datatype_switch_def
      datatypes_check_def check_datatypes_without_bias_def
      xnn_subgraph_new_node_def)

theorem define_fp32_no_bias_accepted_witness:
  "\<exists>node. xnn_define_fully_connected default_build 1 True fp32_graph (Finite (-1)) (Finite 1)
        0 1 XNN_INVALID_VALUE_ID 2 0
        = Some (xnn_status_success, fp32_graph \<lparr> sg_nodes := [node] \<rparr>, [])
      \<and> n_num_inputs node = 2"
  using define_fp32_no_bias_accepted [of 1 "Finite (-1)" "Finite 1" 0 fp32_graph 1 2 True
          default_build 0]
  by (auto simp: graph_defs)

text \<open>
  C10.  The claim as stated gives invalid-parameter as the status of every call whose bias id is
  not the sentinel and whose bias Value is not as demanded.  The initialisation check comes
  first: with the library not initialised, bias id 7 on the three-Value graph yields status
  uninitialized.
\<close>

theorem define_uninitialized_bad_bias:
  "xnn_define_fully_connected default_build 0 True fp32_graph (Finite (-1)) (Finite 1)
      0 1 7 2 0 = Some (xnn_status_uninitialized, fp32_graph,
                        [Log_not_initialized xnn_node_type_fully_connected])
   \<and> (7 :: 32 word) \<noteq> XNN_INVALID_VALUE_ID \<and> \<not> bias_valid fp32_graph 7"
  by (simp add: xnn_define_fully_connected_def Let_def graph_defs bias_valid_def
       XNN_INVALID_VALUE_ID_def)

text \<open>
  C10, amended: with the library initialised.  (a) With the sentinel as bias id and the bounds,
  input, filter and output accepted, the status is decided by
  \<open>check_datatypes_without_bias\<close> and the allocation alone, whatever Values the subgraph holds
  besides the three operands (the sentinel is never compared with \<open>num_values\<close> and no Value
  is read through it), and a node that is created has exactly 2 inputs.  (b) With any other
  bias id, unless the bias Value exists, is a dense tensor, has static data and has datatype
  \<open>fp32\<close> or \<open>qint32\<close>, the call returns invalid-parameter and leaves the subgraph as it was.
\<close>

theorem define_bias_sentinel:
  assumes "init_flags AND XNN_INIT_FLAG_XNNPACK \<noteq> 0"
  shows "(float_lt output_min output_max \<and> activation_valid cfg subgraph input_id
          \<and> filter_valid cfg subgraph filter_id \<and> activation_valid cfg subgraph output_id
          \<longrightarrow> (\<exists>subgraph' lg.
                xnn_define_fully_connected cfg init_flags alloc_ok subgraph output_min
                  output_max input_id filter_id XNN_INVALID_VALUE_ID output_id flags
                = Some (if check_datatypes_without_bias cfg
                             (v_datatype (sg_values subgraph ! unat input_id))
                             (v_datatype (sg_values subgraph ! unat filter_id))
                             (v_datatype (sg_values subgraph ! unat output_id)) = Some True
                        then (if alloc_ok then xnn_status_success
                              else xnn_status_out_of_memory)
                        else xnn_status_invalid_parameter, subgraph', lg)
                \<and> (subgraph' \<noteq> subgraph \<longrightarrow>
                      num_nodes subgraph' = num_nodes subgraph + 1
                      \<and> n_num_inputs (last (sg_nodes subgraph')) = 2)))
       \<and> (bias_id \<noteq> XNN_INVALID_VALUE_ID \<and> \<not> bias_valid subgraph bias_id
          \<longrightarrow> (\<exists>lg.
                xnn_define_fully_connected cfg init_flags alloc_ok subgraph output_min
                  output_max input_id filter_id bias_id output_id flags
                = Some (xnn_status_invalid_parameter, subgraph, lg)))"
  using define_no_bias [OF assms, of output_min output_max cfg subgraph input_id filter_id
          output_id alloc_ok flags]
    define_bad_bias [OF assms, of bias_id subgraph cfg alloc_ok output_min output_max input_id
          filter_id output_id flags]
  by blast

theorem define_bias_sentinel_witness:
  "(\<exists>subgraph' lg.
      xnn_define_fully_connected default_build 1 True fp32_graph (Finite (-1)) (Finite 1)
        0 1 XNN_INVALID_VALUE_ID 2 0 = Some (xnn_status_success, subgraph', lg)
      \<and> n_num_inputs (last (sg_nodes subgraph')) = 2)
   \<and> (\<exists>lg.
      xnn_define_fully_connected default_build 1 True fp32_graph (Finite (-1)) (Finite 1)
        0 1 7 2 0 = Some (xnn_status_invalid_parameter, fp32_graph, lg))"
proof -
  have "xnn_define_fully_connected default_build 1 True fp32_graph (Finite (-1)) (Finite 1)
        0 1 XNN_INVALID_VALUE_ID 2 0
        = Some (xnn_status_success,
                fp32_graph \<lparr> sg_nodes := [fill_node (Finite (-1)) (Finite 1) 0 1
                                             XNN_INVALID_VALUE_ID 2 0 (zero_node 0)] \<rparr>, [])"
    by (simp add: xnn_define_fully_connected_def Let_def graph_defs)
  then have first: "\<exists>subgraph' lg.
      xnn_define_fully_connected default_build 1 True fp32_graph (Finite (-1)) (Finite 1)
        0 1 XNN_INVALID_VALUE_ID 2 0 = Some (xnn_status_success, subgraph', lg)
      \<and> n_num_inputs (last (sg_nodes subgraph')) = 2"
    by (simp add: fill_node_def)
  have second: "\<exists>lg.
      xnn_define_fully_connected default_build 1 True fp32_graph (Finite (-1)) (Finite 1)
        0 1 7 2 0 = Some (xnn_status_invalid_parameter, fp32_graph, lg)"
    using define_bias_sentinel [of 1 "Finite (-1)" "Finite 1" default_build fp32_graph 0 1 2
            True 0 7]
    by (simp add: graph_defs bias_valid_def XNN_INVALID_VALUE_ID_def)
  from first second show ?thesis by blast
qed

section \<open>Properties of the reduction kernel\<close>

subsection \<open>The row loop\<close>

lemma int_of_size_t_small: "n < 2 ^ 31 \<Longrightarrow> int_of_size_t n = int n"
  unfolding int_of_size_t_def
  by (simp add: signed_of_nat signed_take_bit_int_eq_self)

lemma upt7: "[0..<7] = [0, 1, 2, 3, 4, 5, 6]"
  by (simp add: upt_rec)

lemma redirect_eq:
  "0 < r \<Longrightarrow> redirect r zero (map f [0..<7]) = map (\<lambda>k. if int k < r then f k else zero) [0..<7]"
  by (auto simp: redirect_def upt7)

lemma vaddq_f32_nth [simp]: "l < 4 \<Longrightarrow> vaddq_f32 fp a b ! l = add_f32 fp (a ! l) (b ! l)"
  by (simp add: vaddq_f32_def)

lemma vmulq_f32_nth [simp]: "l < 4 \<Longrightarrow> vmulq_f32 fp a b ! l = mul_f32 fp (a ! l) (b ! l)"
  by (simp add: vmulq_f32_def)

lemma vadd_f16_nth [simp]: "l < 4 \<Longrightarrow> vadd_f16 fp a b ! l = add_f16 fp (a ! l) (b ! l)"
  by (simp add: vadd_f16_def)

lemma vld1_cvt_nth [simp]:
  "l < 4 \<Longrightarrow> vcvt_f32_f16 fp (vld1_u16 rd p) ! l = cvt_f32_f16 fp (rd (p + 2 * l))"
  by (simp add: vcvt_f32_f16_def vld1_u16_def)

lemma foldl_vaddq_lane:
  "l < 4 \<Longrightarrow>
   foldl (\<lambda>v p. vaddq_f32 fp (vcvt_f32_f16 fp (vld1_u16 rd (g p))) v) v ps ! l
   = foldl (\<lambda>a p. add_f32 fp (cvt_f32_f16 fp (rd (g p + 2 * l))) a) (v ! l) ps"
  by (induction ps arbitrary: v) simp_all

lemma accumulate_chunks_lane:
  assumes "j < num_chunks" "j < 8" "l < 4"
  shows "accumulate_chunks fp rd num_chunks ps vacc ! j ! l
         = lane_acc fp rd (4 * j + l) ps (vacc ! j ! l)"
proof -
  have "accumulate_chunks fp rd num_chunks ps vacc ! j
        = foldl (\<lambda>v p. vaddq_f32 fp (vcvt_f32_f16 fp (vld1_u16 rd (p + 2 * (j * 4)))) v)
            (vacc ! j) ps"
    using assms by (simp add: accumulate_chunks_def)
  then show ?thesis
    using assms foldl_vaddq_lane [of l fp rd "\<lambda>p. p + 2 * (j * 4)" "vacc ! j" ps]
    by (simp add: lane_acc_def algebra_simps)
qed

lemma accumulate_chunks_other:
  assumes "\<not> j < num_chunks" "j < 8"
  shows "accumulate_chunks fp rd num_chunks ps vacc ! j = vacc ! j"
  using assms by (simp add: accumulate_chunks_def)

lemma foldl_map_chunks:
  "j < 8 \<Longrightarrow>
   foldl (\<lambda>vacc p. map (\<lambda>j. h p j (vacc ! j)) [0..<8]) vacc ps ! j
   = foldl (\<lambda>v p. h p j v) (vacc ! j) ps"
  by (induction ps arbitrary: vacc) simp_all

lemma accumulate32_lane:
  assumes "j < 8" "l < 4"
  shows "accumulate32 fp rd ps vacc ! j ! l = lane_acc fp rd (4 * j + l) ps (vacc ! j ! l)"
proof -
  have "accumulate32 fp rd ps vacc ! j
        = foldl (\<lambda>v p. vaddq_f32 fp (vcvt_f32_f16 fp (vld1_u16 rd (p + 2 * (4 * j)))) v)
            (vacc ! j) ps"
    unfolding accumulate32_def
    using foldl_map_chunks [of j "\<lambda>p j v. vaddq_f32 fp (vcvt_f32_f16 fp (vld1_u16 rd (p + 2 * (4 * j)))) v" vacc ps] assms
    by simp
  then show ?thesis
    using assms foldl_vaddq_lane [of l fp rd "\<lambda>p. p + 2 * (4 * j)" "vacc ! j" ps]
    by (simp add: lane_acc_def algebra_simps)
qed

text \<open>One group of seven pointers with the rows at or beyond \<open>r\<close> redirected: the lane
  receives the rows below \<open>r\<close> and nothing else.\<close>

lemma lane_acc_group:
  assumes "0 < r" and z: "zero_neutral fp rd zero c"
  shows "lane_acc fp rd c (map (\<lambda>k. if int k < r then base + k * stride else zero) [0..<7]) a
         = row_sum fp rd base stride c (min 7 (nat r)) a"
proof -
  have split: "[0..<7] = [0..<min 7 (nat r)] @ [min 7 (nat r)..<7]"
    by (metis le_add_diff_inverse min.cobounded1 upt_add_eq_append zero_le)
  have neutral: "foldl (\<lambda>a p. add_f32 fp (cvt_f32_f16 fp (rd (p + 2 * c))) a) b
                  (map (\<lambda>k. if int k < r then base + k * stride else zero) [m..<7]) = b"
    if "min 7 (nat r) \<le> m" for m b
    using that
  proof (induction "7 - m" arbitrary: m b)
    case 0
    then show ?case by simp
  next
    case (Suc d)
    then have m: "m < 7" "\<not> int m < r" by auto
    have "[m..<7] = m # [Suc m..<7]" using m by (simp add: upt_rec)
    then show ?case
      using Suc(1) [of "Suc m" b] Suc(2,3) m z
      by (simp add: zero_neutral_def)
  qed
  have real: "map (\<lambda>k. if int k < r then base + k * stride else zero) [0..<min 7 (nat r)]
              = map (\<lambda>k. base + k * stride) [0..<min 7 (nat r)]"
    by (rule map_cong) auto
  show ?thesis
    unfolding lane_acc_def row_sum_def
    apply (subst split)
    apply (simp only: map_append foldl_append real)
    apply (subst neutral)
     apply simp
    apply (simp add: foldl_map)
    done
qed

lemma upt_shift: "[0..<n + m] = [0..<n] @ map (\<lambda>t. t + n) [0..<m]"
proof -
  have "[0..<n + m] = [0..<n] @ [n..<n + m]"
    using upt_add_eq_append [of 0 n m] by simp
  moreover have "map (\<lambda>t. t + n) [0..<m] = [n..<n + m]"
    using map_add_upt [of n m] by (simp only: add.commute)
  ultimately show ?thesis by (simp only:)
qed

lemma row_sum_add:
  "row_sum fp rd base stride c (n + m) a
   = row_sum fp rd (base + n * stride) stride c m (row_sum fp rd base stride c n a)"
proof -
  have "\<And>t. base + (t + n) * stride + 2 * c = base + n * stride + t * stride + 2 * c"
    by (simp add: algebra_simps)
  then show ?thesis
    unfolding row_sum_def upt_shift foldl_append foldl_map by (simp only:)
qed

lemma row_loop_lane:
  assumes body: "\<And>ps vacc. body ps vacc ! j ! l = lane_acc fp rd c ps (vacc ! j ! l)"
    and z: "zero_neutral fp rd zero c"
  shows "row_loop body zero (7 * stride) r (map (\<lambda>k. base + k * stride) [0..<7]) vacc ! j ! l
         = row_sum fp rd base stride c (nat r) (vacc ! j ! l)"
proof (induction "nat r" arbitrary: r base vacc rule: less_induct)
  case less
  show ?case
  proof (cases "r > 0")
    case False
    then show ?thesis
      by (simp add: row_loop.simps row_sum_def)
  next
    case True
    let ?i = "map (\<lambda>k. if int k < r then base + k * stride else zero) [0..<7]"
    have step: "row_loop body zero (7 * stride) r (map (\<lambda>k. base + k * stride) [0..<7]) vacc
          = row_loop body zero (7 * stride) (r - 7) (map (\<lambda>p. p + 7 * stride) ?i) (body ?i vacc)"
      using True redirect_eq [of r zero "\<lambda>k. base + k * stride"]
      by (subst row_loop.simps) (simp add: Let_def)
    have lane: "body ?i vacc ! j ! l = row_sum fp rd base stride c (min 7 (nat r)) (vacc ! j ! l)"
      using body lane_acc_group [OF True z] by simp
    show ?thesis
    proof (cases "r < 7")
      case True
      then have "row_loop body zero (7 * stride) (r - 7) (map (\<lambda>p. p + 7 * stride) ?i)
                   (body ?i vacc) = body ?i vacc"
        by (subst row_loop.simps) simp
      moreover have "min 7 (nat r) = nat r" using True by simp
      ultimately show ?thesis
        using step lane by simp
    next
      case False
      then have i: "map (\<lambda>p. p + 7 * stride) ?i = map (\<lambda>k. (base + 7 * stride) + k * stride) [0..<7]"
        by (simp add: upt7)
      have "nat (r - 7) < nat r" using False by simp
      from less [OF this, of "base + 7 * stride" "body ?i vacc"]
      have rec: "row_loop body zero (7 * stride) (r - 7) (map (\<lambda>p. p + 7 * stride) ?i) (body ?i vacc)
              ! j ! l
            = row_sum fp rd (base + 7 * stride) stride c (nat (r - 7)) (body ?i vacc ! j ! l)"
        unfolding i .
      have m: "min 7 (nat r) = 7" using False by simp
      have n: "nat r = 7 + nat (r - 7)" using False by simp
      have "row_sum fp rd base stride c (nat r) (vacc ! j ! l)
            = row_sum fp rd (base + 7 * stride) stride c (nat (r - 7))
                (row_sum fp rd base stride c 7 (vacc ! j ! l))"
        by (subst n) (rule row_sum_add)
      then show ?thesis
        unfolding step rec lane m by simp
    qed
  qed
qed

lemma length_written [simp]: "p + n \<le> length b \<Longrightarrow> length (written b p n f) = length b"
  by (simp add: written_def)

lemma written_nth:
  "p + n \<le> length b \<Longrightarrow> i < length b \<Longrightarrow>
   written b p n f ! i = (if p \<le> i \<and> i < p + n then f (i - p) (b ! i) else b ! i)"
  by (auto simp: written_def nth_append)

lemma written_0 [simp]: "p \<le> length b \<Longrightarrow> written b p 0 f = b"
  by (simp add: written_def)

lemma written_written:
  assumes "p + n + m \<le> length b"
  shows "written (written b p n f) (p + n) m g
         = written b p (n + m) (\<lambda>c. if c < n then f c else g (c - n))"
proof (rule nth_equalityI)
  show "length (written (written b p n f) (p + n) m g)
        = length (written b p (n + m) (\<lambda>c. if c < n then f c else g (c - n)))"
    using assms by simp
next
  fix i assume "i < length (written (written b p n f) (p + n) m g)"
  then have i: "i < length b" using assms by simp
  show "written (written b p n f) (p + n) m g ! i
        = written b p (n + m) (\<lambda>c. if c < n then f c else g (c - n)) ! i"
    using assms i by (auto simp: written_nth)
qed

lemma written_cong:
  "(\<And>c. c < n \<Longrightarrow> f c (b ! (p + c)) = g c (b ! (p + c))) \<Longrightarrow> written b p n f = written b p n g"
  by (simp add: written_def)

lemma out_load_Some:
  "p + n \<le> length (buf st) \<Longrightarrow> out_load st p n = Some (take n (drop p (buf st)))"
  by (simp add: out_load_def)

lemma load_chunks_Some:
  "q + 4 * n \<le> length (buf st) \<Longrightarrow>
   load_chunks st q n = Some (map (\<lambda>j. take 4 (drop (q + 4 * j) (buf st))) [0..<n])"
proof (induction n arbitrary: q)
  case 0
  then show ?case by simp
next
  case (Suc n)
  have "[0..<Suc n] = 0 # map Suc [0..<n]"
    by (simp add: upt_conv_Cons map_Suc_upt del: upt_Suc)
  then show ?case
    using Suc.prems Suc.IH [of "q + 4"]
    by (simp add: out_vld1_u16_def out_load_Some o_def algebra_simps del: upt_Suc)
qed

lemma concat_chunks_nth:
  "\<forall>v \<in> set vs. length v = 4 \<Longrightarrow> i < 4 * length vs \<Longrightarrow> concat vs ! i = vs ! (i div 4) ! (i mod 4)"
proof (induction vs arbitrary: i)
  case Nil
  then show ?case by simp
next
  case (Cons v vs)
  show ?case
  proof (cases "i < 4")
    case True
    then show ?thesis using Cons.prems by (simp add: nth_append)
  next
    case False
    then have "(i - 4) div 4 = i div 4 - 1" "(i - 4) mod 4 = i mod 4" "i div 4 \<noteq> 0"
      using le_div_geq [of 4 i] le_mod_geq [of 4 i] by auto
    then show ?thesis
      using False Cons.prems Cons.IH [of "i - 4"]
      by (simp add: nth_append nth_Cons')
  qed
qed

lemma length_concat_chunks:
  "\<forall>v \<in> set vs. length v = 4 \<Longrightarrow> length (concat vs) = 4 * length vs"
  by (induction vs) simp_all

lemma store_chunks_Some:
  assumes "optr st + 4 * length vs \<le> length (buf st)" "\<forall>v \<in> set vs. length v = 4"
  shows "store_chunks st vs =
    Some (st \<lparr> buf := take (optr st) (buf st) @ concat vs @ drop (optr st + 4 * length vs) (buf st),
               optr := optr st + 4 * length vs,
               stores := stores st @ map (\<lambda>j. (optr st + 4 * j, 4)) [0..<length vs] \<rparr>)"
  using assms
proof (induction vs arbitrary: st)
  case Nil
  then show ?case by simp
next
  case (Cons v vs)
  have upt: "[0..<Suc (length vs)] = 0 # map Suc [0..<length vs]"
    by (simp add: upt_conv_Cons map_Suc_upt del: upt_Suc)
  let ?st1 = "st \<lparr> buf := take (optr st) (buf st) @ v @ drop (optr st + 4) (buf st),
                   stores := stores st @ [(optr st, 4)], optr := optr st + 4 \<rparr>"
  have v: "length v = 4" using Cons.prems by simp
  have one: "vst1_u16 st (optr st) v
             = Some (st \<lparr> buf := take (optr st) (buf st) @ v @ drop (optr st + 4) (buf st),
                          stores := stores st @ [(optr st, 4)] \<rparr>)"
    using Cons.prems v by (simp add: vst1_u16_def out_store_def)
  have rest: "store_chunks ?st1 vs = Some (?st1 \<lparr>
       buf := take (optr ?st1) (buf ?st1) @ concat vs @ drop (optr ?st1 + 4 * length vs) (buf ?st1),
       optr := optr ?st1 + 4 * length vs,
       stores := stores ?st1 @ map (\<lambda>j. (optr ?st1 + 4 * j, 4)) [0..<length vs] \<rparr>)"
    using Cons.prems v by (intro Cons.IH) simp_all
  have b: "take (optr ?st1) (buf ?st1) @ concat vs @ drop (optr ?st1 + 4 * length vs) (buf ?st1)
           = take (optr st) (buf st) @ concat (v # vs) @ drop (optr st + 4 * length (v # vs)) (buf st)"
    using Cons.prems v by (simp add: min_def ac_simps)
  show ?case
    unfolding store_chunks.simps one
    using rest b
    by (simp add: upt o_def algebra_simps del: upt_Suc)
qed

lemma length_vaddq_f32 [simp]: "length (vaddq_f32 fp a b) = 4"
  by (simp add: vaddq_f32_def)

lemma length_vmulq_f32 [simp]: "length (vmulq_f32 fp a b) = 4"
  by (simp add: vmulq_f32_def)

lemma length_vadd_f16 [simp]: "length (vadd_f16 fp a b) = 4"
  by (simp add: vadd_f16_def)

lemma length_vcvt_f16_f32 [simp]: "length (vcvt_f16_f32 fp v) = length v"
  by (simp add: vcvt_f16_f32_def)

lemma vcvt_f16_f32_nth [simp]: "l < length v \<Longrightarrow> vcvt_f16_f32 fp v ! l = cvt_f16_f32 fp (v ! l)"
  by (simp add: vcvt_f16_f32_def)

lemma vdupq_n_f32_nth [simp]: "l < 4 \<Longrightarrow> vdupq_n_f32 x ! l = x"
  by (simp add: vdupq_n_f32_def)

lemma row_loop32_lane:
  assumes "rows < 2 ^ 31" "zero_neutral fp rd zero (4 * j + l)" "j < 8" "l < 4"
  shows "row_loop (accumulate32 fp rd) zero (7 * input_stride) (int_of_size_t rows)
           (map (\<lambda>k. input + k * input_stride) [0..<7])
           (replicate 8 (vdupq_n_f32 (zero_f32 fp))) ! j ! l
         = row_sum fp rd input input_stride (4 * j + l) rows (zero_f32 fp)"
  using row_loop_lane [of "accumulate32 fp rd" j l fp rd "4 * j + l" zero input_stride "int rows"
      input "replicate 8 (vdupq_n_f32 (zero_f32 fp))"] assms
  by (simp add: accumulate32_lane int_of_size_t_small)

lemma row_loop_chunks_lane:
  assumes "rows < 2 ^ 31" "zero_neutral fp rd zero (4 * j + l)" "j < num_chunks" "j < 8" "l < 4"
  shows "row_loop (accumulate_chunks fp rd num_chunks) zero (7 * input_stride) (int_of_size_t rows)
           (map (\<lambda>k. input + k * input_stride) [0..<7])
           (replicate 8 (vdupq_n_f32 (zero_f32 fp))) ! j ! l
         = row_sum fp rd input input_stride (4 * j + l) rows (zero_f32 fp)"
  using row_loop_lane [of "accumulate_chunks fp rd num_chunks" j l fp rd "4 * j + l" zero
      input_stride "int rows" input "replicate 8 (vdupq_n_f32 (zero_f32 fp))"] assms
  by (simp add: accumulate_chunks_lane int_of_size_t_small)

lemma chunk_nth:
  "q + 4 * j + l < length b \<Longrightarrow> l < 4 \<Longrightarrow> take 4 (drop (q + 4 * j) b) ! l = b ! (q + 4 * j + l)"
  by simp

lemma rdsum_block32_Some:
  assumes rows: "rows < 2 ^ 31"
    and zero: "\<forall>c<32. zero_neutral fp rd zero c"
    and len: "optr st + 32 \<le> length (buf st)"
  shows "rdsum_block32 fp rd rows input input_stride zero scale st
    = Some (st \<lparr> buf := written (buf st) (optr st) 32
                          (out_value fp rd rows input input_stride scale),
                 optr := optr st + 32,
                 stores := stores st @ map (\<lambda>j. (optr st + 4 * j, 4)) [0..<8] \<rparr>)"
proof -
  define vacc where "vacc = row_loop (accumulate32 fp rd) zero (7 * input_stride)
      (int_of_size_t rows) (map (\<lambda>k. input + k * input_stride) [0..<7])
      (replicate 8 (vdupq_n_f32 (zero_f32 fp)))"
  define vo where "vo = map (\<lambda>j. take 4 (drop (optr st + 4 * j) (buf st))) [0..<8]"
  define vout where "vout = map (\<lambda>j. vadd_f16 fp (vo ! j)
      (vcvt_f16_f32 fp (map (\<lambda>j. vmulq_f32 fp (vacc ! j) (vdupq_n_f32 scale)) [0..<8] ! j))) [0..<8]"
  have lane: "vacc ! j ! l = row_sum fp rd input input_stride (4 * j + l) rows (zero_f32 fp)"
    if "j < 8" "l < 4" for j l
    unfolding vacc_def using that rows zero by (intro row_loop32_lane) auto
  have ld: "load_chunks st (optr st) 8 = Some vo"
    unfolding vo_def using len by (intro load_chunks_Some) simp
  have vout4: "\<forall>v \<in> set vout. length v = 4"
    by (auto simp: vout_def)
  have lv: "length vout = 8" by (simp add: vout_def)
  have st: "store_chunks st vout
    = Some (st \<lparr> buf := take (optr st) (buf st) @ concat vout @ drop (optr st + 32) (buf st),
                 optr := optr st + 32,
                 stores := stores st @ map (\<lambda>j. (optr st + 4 * j, 4)) [0..<8] \<rparr>)"
    using store_chunks_Some [of st vout] vout4 lv len by simp
  have cc: "concat vout = map (\<lambda>c. out_value fp rd rows input input_stride scale c
                                   (buf st ! (optr st + c))) [0..<32]"
  proof (rule nth_equalityI)
    show "length (concat vout) = length (map (\<lambda>c. out_value fp rd rows input input_stride scale c
                                   (buf st ! (optr st + c))) [0..<32])"
      using length_concat_chunks [OF vout4] lv by simp
  next
    fix i assume "i < length (concat vout)"
    then have i: "i < 32" using length_concat_chunks [OF vout4] lv by simp
    then have j: "i div 4 < 8" and l: "i mod 4 < 4" by auto
    have e: "4 * (i div 4) + i mod 4 = i" by simp
    have "concat vout ! i = vout ! (i div 4) ! (i mod 4)"
      using concat_chunks_nth [OF vout4, of i] lv i by simp
    also have "\<dots> = add_f16 fp (buf st ! (optr st + i))
        (cvt_f16_f32 fp (mul_f32 fp (vacc ! (i div 4) ! (i mod 4)) scale))"
      using j l len i chunk_nth [of "optr st" "i div 4" "i mod 4" "buf st"]
      by (simp add: vout_def vo_def e add.assoc)
    finally show "concat vout ! i = map (\<lambda>c. out_value fp rd rows input input_stride scale c
                                   (buf st ! (optr st + c))) [0..<32] ! i"
      using i lane [OF j l] by (simp add: out_value_def e)
  qed
  show ?thesis
    unfolding rdsum_block32_def Let_def
    using ld st cc
    by (simp add: vacc_def [symmetric] vout_def [symmetric] written_def)
qed

lemma out_store_written:
  "p + length vs \<le> length (buf st) \<Longrightarrow>
   out_store st p vs = Some (st \<lparr> buf := written (buf st) p (length vs) (\<lambda>c old. vs ! c),
                                  stores := stores st @ [(p, length vs)] \<rparr>)"
  by (simp add: out_store_def written_def map_nth)

lemma written_eqI:
  assumes "length b' = length b" "p + n \<le> length b"
    and "\<And>i. i < length b \<Longrightarrow> b' ! i = (if p \<le> i \<and> i < p + n then f (i - p) (b ! i) else b ! i)"
  shows "b' = written b p n f"
  using assms by (intro nth_equalityI) (auto simp: written_nth)

lemma and_3_cases:
  "(0::nat) AND 2 = 0" "(1::nat) AND 2 = 0" "(2::nat) AND 2 = 2" "(3::nat) AND 2 = 2"
  "(0::nat) AND 1 = 0" "(1::nat) AND 1 = 1" "(2::nat) AND 1 = 0" "(3::nat) AND 1 = 1"
  by simp_all

lemma take2_drop: "q + 2 \<le> length b \<Longrightarrow> take 2 (drop q b) = [b ! q, b ! (q + 1)]"
  by (simp add: numeral_2_eq_2 take_Suc_conv_app_nth)

lemma take1_drop: "q + 1 \<le> length b \<Longrightarrow> take (Suc 0) (drop q b) = [b ! q]"
  by (simp add: take_Suc_conv_app_nth)

lemma upt4: "[0..<4] = [0, 1, 2, 3]"
  by (simp add: upt_rec)

lemma vadd_f16_list:
  "vadd_f16 fp a b = [add_f16 fp (a ! 0) (b ! 0), add_f16 fp (a ! 1) (b ! 1),
                      add_f16 fp (a ! 2) (b ! 2), add_f16 fp (a ! 3) (b ! 3)]"
  by (simp add: vadd_f16_def upt4)

lemma written_1:
  "written b p (Suc 0) f = take p b @ [f 0 (b ! p)] @ drop (Suc p) b"
  by (simp add: written_def)

lemma written_2:
  "written b p 2 f = take p b @ [f 0 (b ! p), f 1 (b ! (p + 1))] @ drop (p + 2) b"
  by (simp add: written_def upt_rec)

lemma vld1_dup_u32_Some:
  "q + 2 \<le> length (buf st) \<Longrightarrow>
   vld1_dup_u32 st q = Some [buf st ! q, buf st ! (q + 1), buf st ! q, buf st ! (q + 1)]"
  by (simp add: vld1_dup_u32_def out_load_def take2_drop)

lemma vst1_lane_u32_Some:
  "q + 2 \<le> length (buf st) \<Longrightarrow>
   vst1_lane_u32 st q (vadd_f16 fp low [buf st ! q, buf st ! (q + 1), buf st ! q, buf st ! (q + 1)])
   = Some (st \<lparr> buf := written (buf st) q 2 (\<lambda>c old. add_f16 fp (low ! c) old),
                stores := stores st @ [(q, 2)] \<rparr>)"
  by (simp add: vst1_lane_u32_def out_store_def vadd_f16_list written_2)

lemma vld1_dup_u16_Some:
  "q + 1 \<le> length (buf st) \<Longrightarrow> vld1_dup_u16 st q = Some (replicate 4 (buf st ! q))"
  by (simp add: vld1_dup_u16_def out_load_def take1_drop)

lemma vst1_lane_u16_Some:
  "q + 1 \<le> length (buf st) \<Longrightarrow>
   vst1_lane_u16 st q (vadd_f16 fp low (replicate 4 (buf st ! q)))
   = Some (st \<lparr> buf := written (buf st) q 1 (\<lambda>c old. add_f16 fp (low ! 0) old),
                stores := stores st @ [(q, 1)] \<rparr>)"
  by (simp add: vst1_lane_u16_def out_store_def vadd_f16_list written_1)

lemma rdsum_tail:
  assumes m: "m < 4" and len: "optr st1 + m \<le> length (buf st1)" and low: "length low = 4"
  shows "store_tail fp low m st1
         = Some (st1 \<lparr> buf := written (buf st1) (optr st1) m (\<lambda>c old. add_f16 fp (low ! c) old),
                       optr := optr st1 + (if 2 \<le> m then 2 else 0),
                       stores := stores st1 @ (if 2 \<le> m then [(optr st1, 2)] else [])
                                  @ (if odd m then [(optr st1 + m - 1, 1)] else []) \<rparr>)"
proof -
  let ?q = "optr st1" and ?b = "buf st1"
  let ?f = "\<lambda>c old. add_f16 fp (low ! c) old"
  consider "m = 0" | "m = 1" | "m = 2" | "m = 3" using m by linarith
  then show ?thesis
  proof cases
    case 1
    then show ?thesis using len by (simp add: store_tail_def)
  next
    case 2
    have "written ?b ?q 1 (\<lambda>c old. add_f16 fp (low ! 0) old) = written ?b ?q 1 ?f"
      by (rule written_cong) simp
    then show ?thesis
      using len 2 vld1_dup_u16_Some [of ?q st1] vst1_lane_u16_Some [of ?q st1 fp low]
      by (simp add: and_3_cases store_tail_def)
  next
    case 3
    then show ?thesis
      using len vld1_dup_u32_Some [of ?q st1] vst1_lane_u32_Some [of ?q st1 fp low]
      by (simp add: and_3_cases store_tail_def)
  next
    case 4
    let ?st2 = "st1 \<lparr> buf := written ?b ?q 2 ?f, stores := stores st1 @ [(?q, 2)],
                      optr := ?q + 2 \<rparr>"
    have l2: "vext_f16 low low 2 ! 0 = low ! 2"
      using low by (simp add: vext_f16_def nth_append)
    have len2: "?q + 2 + 1 \<le> length ?b" "?q + 2 \<le> length ?b" using len 4 by simp_all
    have old: "written ?b ?q 2 ?f ! (?q + 2) = ?b ! (?q + 2)"
      using len2 by (simp add: written_nth)
    have d2: "vld1_dup_u16 ?st2 (?q + 2) = Some (replicate 4 (?b ! (?q + 2)))"
      using vld1_dup_u16_Some [of "?q + 2" ?st2] len2 old by simp
    have s2: "vst1_lane_u16 ?st2 (?q + 2)
                (vadd_f16 fp (vext_f16 low low 2) (replicate 4 (?b ! (?q + 2))))
              = Some (?st2 \<lparr> buf := written (written ?b ?q 2 ?f) (?q + 2) 1
                                      (\<lambda>c old. add_f16 fp (low ! 2) old),
                             stores := stores st1 @ [(?q, 2)] @ [(?q + 2, 1)] \<rparr>)"
      using vst1_lane_u16_Some [of "?q + 2" ?st2 fp "vext_f16 low low 2"] len2 old l2 by simp
    have w: "written (written ?b ?q 2 ?f) (?q + 2) 1 (\<lambda>c old. add_f16 fp (low ! 2) old)
             = written ?b ?q 3 ?f"
    proof -
      have "written (written ?b ?q 2 ?f) (?q + 2) 1 (\<lambda>c old. add_f16 fp (low ! 2) old)
            = written ?b ?q (2 + 1)
                (\<lambda>c. if c < 2 then ?f c else (\<lambda>old. add_f16 fp (low ! 2) old))"
        using len2 by (intro written_written) simp
      also have "\<dots> = written ?b ?q (2 + 1) ?f"
      proof (rule written_cong)
        fix c :: nat assume "c < 2 + 1"
        then have "c < 2 \<or> c = 2" by linarith
        then show "(if c < 2 then ?f c else (\<lambda>old. add_f16 fp (low ! 2) old)) (?b ! (?q + c))
                   = ?f c (?b ! (?q + c))"
          by auto
      qed
      finally show ?thesis by simp
    qed
    show ?thesis
      using len 4 vld1_dup_u32_Some [of ?q st1] vst1_lane_u32_Some [of ?q st1 fp low] d2 s2 w
      by (simp add: and_3_cases store_tail_def)
  qed
qed

lemma and_3_mod: "(n::nat) AND 3 = n mod 4"
proof -
  have "n AND mask 2 = take_bit 2 n" by (simp add: take_bit_eq_mask)
  moreover have "mask 2 = (3::nat)" by (simp add: mask_eq_exp_minus_1)
  ultimately show ?thesis by (simp add: take_bit_eq_mod)
qed

lemma rdsum_remainder_Some:
  assumes rows: "rows < 2 ^ 31" and ch: "0 < channels" "channels < 32"
    and zero: "\<forall>c<channels. zero_neutral fp rd zero c"
    and comm: "\<forall>x y. add_f16 fp x y = add_f16 fp y x"
    and len: "optr st + channels \<le> length (buf st)"
  shows "\<exists>q. rdsum_remainder fp rd rows channels input input_stride zero scale st
    = Some (st \<lparr> buf := written (buf st) (optr st) channels
                          (out_value fp rd rows input input_stride scale),
                 optr := q,
                 stores := stores st @ rdsum_stores (optr st) channels \<rparr>)"
proof -
  let ?F = "out_value fp rd rows input input_stride scale"
  let ?p = "optr st" and ?b = "buf st"
  define n where "n = drop_bit 2 channels"
  define m where "m = channels AND 3"
  define nc where "nc = drop_bit 2 (round_up_po2 channels 4)"
  define ns where "ns = drop_bit 2 (channels + 4)"
  have n': "n = channels div 4" and m': "m = channels mod 4"
    and nc': "nc = (channels + 3) div 4" and ns': "ns = (channels + 4) div 4"
    by (simp_all add: n_def m_def nc_def ns_def drop_bit_eq_div and_3_mod round_up_po2_def)
  have nm: "channels = 4 * n + m" "m < 4" "n < 8"
    using ch by (auto simp: n' m')
  define vacc where "vacc = row_loop (accumulate_chunks fp rd nc) zero
      (7 * input_stride) (int_of_size_t rows) (map (\<lambda>k. input + k * input_stride) [0..<7])
      (replicate 8 (vdupq_n_f32 (zero_f32 fp)))"
  define vaccS where "vaccS = map (\<lambda>j. if j < ns
      then vmulq_f32 fp (vacc ! j) (vdupq_n_f32 scale) else vacc ! j) [0..<8]"
  define vo where "vo = map (\<lambda>j. take 4 (drop (?p + 4 * j) ?b)) [0..<n]"
  define vout where "vout = map (\<lambda>j. vadd_f16 fp (vo ! j) (vcvt_f16_f32 fp (vaccS ! j))) [0..<n]"
  define low where "low = vcvt_f16_f32 fp (vaccS ! n)"
  have laneS: "vaccS ! j ! l
               = mul_f32 fp (row_sum fp rd input input_stride (4 * j + l) rows (zero_f32 fp)) scale"
    if "4 * j + l < channels" "l < 4" for j l
  proof -
    have j: "j < 8" "j < nc" "j < ns"
      using that ch by (auto simp: nc' ns')
    have "vacc ! j ! l = row_sum fp rd input input_stride (4 * j + l) rows (zero_f32 fp)"
      unfolding vacc_def using that rows zero j by (intro row_loop_chunks_lane) auto
    then show ?thesis using j that by (simp add: vaccS_def)
  qed
  have lenSj: "length (vaccS ! j) = 4" if "j \<le> n" for j
    using that nm by (simp add: vaccS_def ns')
  have lenS: "length (vaccS ! n) = 4"
    by (rule lenSj) simp
  have low4: "length low = 4" by (simp add: low_def lenS)
  have ld: "load_chunks st ?p n = Some vo"
    unfolding vo_def using len nm by (intro load_chunks_Some) simp
  have vout4: "\<forall>v \<in> set vout. length v = 4" by (auto simp: vout_def)
  have lv: "length vout = n" by (simp add: vout_def)
  let ?st1 = "st \<lparr> buf := take ?p ?b @ concat vout @ drop (?p + 4 * n) ?b,
                   optr := ?p + 4 * n,
                   stores := stores st @ map (\<lambda>j. (?p + 4 * j, 4)) [0..<n] \<rparr>"
  have stc: "store_chunks st vout = Some ?st1"
    using store_chunks_Some [of st vout] vout4 lv len nm by simp
  have cc: "concat vout = map (\<lambda>c. ?F c (?b ! (?p + c))) [0..<4 * n]"
  proof (rule nth_equalityI)
    show "length (concat vout) = length (map (\<lambda>c. ?F c (?b ! (?p + c))) [0..<4 * n])"
      using length_concat_chunks [OF vout4] lv by simp
  next
    fix i assume "i < length (concat vout)"
    then have i: "i < 4 * n" using length_concat_chunks [OF vout4] lv by simp
    then have j: "i div 4 < n" and l: "i mod 4 < 4" by auto
    have e: "4 * (i div 4) + i mod 4 = i" by simp
    have ic: "4 * (i div 4) + i mod 4 < channels" using i nm e by linarith
    have "concat vout ! i = vout ! (i div 4) ! (i mod 4)"
      using concat_chunks_nth [OF vout4, of i] lv i by simp
    also have "\<dots> = add_f16 fp (?b ! (?p + i))
        (cvt_f16_f32 fp (vaccS ! (i div 4) ! (i mod 4)))"
      using j l len i nm chunk_nth [of ?p "i div 4" "i mod 4" ?b] lenSj [of "i div 4"]
      by (simp add: vout_def vo_def e add.assoc)
    finally show "concat vout ! i = map (\<lambda>c. ?F c (?b ! (?p + c))) [0..<4 * n] ! i"
      using i laneS [OF ic l] by (simp add: out_value_def e)
  qed
  have b1: "buf ?st1 = written ?b ?p (4 * n) ?F"
    using cc by (simp add: written_def)
  have tail: "store_tail fp low m ?st1
         = Some (?st1 \<lparr> buf := written (buf ?st1) (optr ?st1) m (\<lambda>c old. add_f16 fp (low ! c) old),
                       optr := optr ?st1 + (if 2 \<le> m then 2 else 0),
                       stores := stores ?st1 @ (if 2 \<le> m then [(optr ?st1, 2)] else [])
                                  @ (if odd m then [(optr ?st1 + m - 1, 1)] else []) \<rparr>)"
    using nm len low4 length_concat_chunks [OF vout4] lv by (intro rdsum_tail) simp_all
  have w: "written (buf ?st1) (optr ?st1) m (\<lambda>c old. add_f16 fp (low ! c) old)
           = written ?b ?p channels ?F"
  proof -
    have "written (written ?b ?p (4 * n) ?F) (?p + 4 * n) m (\<lambda>c old. add_f16 fp (low ! c) old)
          = written ?b ?p (4 * n + m)
              (\<lambda>c. if c < 4 * n then ?F c else (\<lambda>old. add_f16 fp (low ! (c - 4 * n)) old))"
      using len nm by (intro written_written) simp
    also have "\<dots> = written ?b ?p (4 * n + m) ?F"
    proof (rule written_cong)
      fix c assume c: "c < 4 * n + m"
      show "(if c < 4 * n then ?F c else (\<lambda>old. add_f16 fp (low ! (c - 4 * n)) old)) (?b ! (?p + c))
            = ?F c (?b ! (?p + c))"
      proof (cases "c < 4 * n")
        case True
        then show ?thesis by simp
      next
        case False
        then have l: "c - 4 * n < 4" "4 * n + (c - 4 * n) = c" using c nm by auto
        have "low ! (c - 4 * n) = cvt_f16_f32 fp (vaccS ! n ! (c - 4 * n))"
          using l lenS by (simp add: low_def)
        also have "vaccS ! n ! (c - 4 * n)
              = mul_f32 fp (row_sum fp rd input input_stride c rows (zero_f32 fp)) scale"
          using laneS [of n "c - 4 * n"] l c nm by simp
        finally show ?thesis
          using False comm by (simp add: out_value_def)
      qed
    qed
    finally show ?thesis using b1 nm by simp
  qed
  have sl: "map (\<lambda>j. (?p + 4 * j, 4)) [0..<n] @ (if 2 \<le> m then [(?p + 4 * n, 2)] else [])
              @ (if odd m then [(?p + 4 * n + m - 1, 1)] else [])
            = rdsum_stores ?p channels"
  proof -
    have "odd m = odd channels" using nm by simp
    moreover have "?p + 4 * n + m - 1 = ?p + channels - 1" using nm by simp
    ultimately show ?thesis
      by (simp add: rdsum_stores_def n' [symmetric] m' [symmetric])
  qed
  have "rdsum_remainder fp rd rows channels input input_stride zero scale st
        = store_tail fp low m ?st1"
    unfolding rdsum_remainder_def Let_def n_def [symmetric] m_def [symmetric]
      nc_def [symmetric] ns_def [symmetric] vacc_def [symmetric] vaccS_def [symmetric]
      low_def [symmetric]
    using ld stc by (simp add: vout_def [symmetric])
  then show ?thesis
    unfolding sl [symmetric]
    using tail w
    by (intro exI [of _ "?p + 4 * n + (if 2 \<le> m then 2 else 0)"]) simp
qed

lemma row_sum_shift:
  "32 \<le> c \<Longrightarrow> row_sum fp rd (input + 64) stride (c - 32) n a = row_sum fp rd input stride c n a"
proof -
  assume c: "32 \<le> c"
  have "\<And>t. input + 64 + t * stride + 2 * (c - 32) = input + t * stride + 2 * c"
    using c by simp
  then show ?thesis unfolding row_sum_def by (simp only:)
qed

lemma out_value_shift:
  "\<not> c < 32 \<Longrightarrow> out_value fp rd rows (input + 64) stride scale (c - 32)
                 = out_value fp rd rows input stride scale c"
  by (rule ext) (simp add: out_value_def row_sum_shift)

lemma rdsum_stores_block:
  assumes "32 \<le> channels"
  shows "map (\<lambda>j. (p + 4 * j, 4)) [0..<8] @ rdsum_stores (p + 32) (channels - 32)
         = rdsum_stores p channels"
proof -
  define k where "k = (channels - 32) div 4"
  have d: "channels div 4 = 8 + k" "(channels - 32) mod 4 = channels mod 4"
    "odd (channels - 32) = odd channels" "p + 32 + (channels - 32) - 1 = p + channels - 1"
    "p + 32 + 4 * k = p + 4 * (8 + k)"
    using assms by (auto simp: k_def le_div_geq le_mod_geq)
  have "[0..<8 + k] = [0..<8] @ map (\<lambda>t. t + 8) [0..<k]"
    by (rule upt_shift)
  then have "map (\<lambda>j. (p + 4 * j, 4 :: nat)) [0..<8 + k]
             = map (\<lambda>j. (p + 4 * j, 4)) [0..<8] @ map (\<lambda>j. (p + 32 + 4 * j, 4)) [0..<k]"
    by (simp add: o_def algebra_simps)
  then show ?thesis
    unfolding rdsum_stores_def d k_def [symmetric] by simp
qed

lemma rdsum_kernel_general:
  assumes rows: "rows < 2 ^ 31"
    and zero: "\<forall>c<min channels 32. zero_neutral fp rd zero c"
    and comm: "\<forall>x y. add_f16 fp x y = add_f16 fp y x"
    and len: "optr st + channels \<le> length (buf st)"
  shows "\<exists>q. xnn_f16_f32acc_rdsum_ukernel_7p7x__neonfp16arith_c32 fp rd rows channels input
               input_stride zero scale st
    = Some (st \<lparr> buf := written (buf st) (optr st) channels
                          (out_value fp rd rows input input_stride scale),
                 optr := q,
                 stores := stores st @ rdsum_stores (optr st) channels \<rparr>)"
  using zero len
proof (induction channels arbitrary: input st rule: less_induct)
  case (less channels)
  let ?F = "out_value fp rd rows input input_stride scale"
  show ?case
  proof (cases "32 \<le> channels")
    case True
    let ?st1 = "st \<lparr> buf := written (buf st) (optr st) 32 ?F, optr := optr st + 32,
                     stores := stores st @ map (\<lambda>j. (optr st + 4 * j, 4)) [0..<8] \<rparr>"
    have blk: "rdsum_block32 fp rd rows input input_stride zero scale st = Some ?st1"
      using True less.prems rows by (intro rdsum_block32_Some) auto
    have "\<exists>q. xnn_f16_f32acc_rdsum_ukernel_7p7x__neonfp16arith_c32 fp rd rows (channels - 32)
               (input + 32 * 2) input_stride zero scale ?st1
        = Some (?st1 \<lparr> buf := written (buf ?st1) (optr ?st1) (channels - 32)
                          (out_value fp rd rows (input + 32 * 2) input_stride scale),
                 optr := q,
                 stores := stores ?st1 @ rdsum_stores (optr ?st1) (channels - 32) \<rparr>)"
      using True less.prems by (intro less.IH) auto
    then obtain q where rec:
      "xnn_f16_f32acc_rdsum_ukernel_7p7x__neonfp16arith_c32 fp rd rows (channels - 32)
               (input + 32 * 2) input_stride zero scale ?st1
        = Some (?st1 \<lparr> buf := written (buf ?st1) (optr ?st1) (channels - 32)
                          (out_value fp rd rows (input + 32 * 2) input_stride scale),
                 optr := q,
                 stores := stores ?st1 @ rdsum_stores (optr ?st1) (channels - 32) \<rparr>)"
      by blast
    have w: "written (written (buf st) (optr st) 32 ?F) (optr st + 32) (channels - 32)
               (out_value fp rd rows (input + 32 * 2) input_stride scale)
             = written (buf st) (optr st) channels ?F"
    proof -
      have "written (written (buf st) (optr st) 32 ?F) (optr st + 32) (channels - 32)
               (out_value fp rd rows (input + 32 * 2) input_stride scale)
            = written (buf st) (optr st) (32 + (channels - 32))
                (\<lambda>c. if c < 32 then ?F c
                     else out_value fp rd rows (input + 32 * 2) input_stride scale (c - 32))"
        using True less.prems by (intro written_written) simp
      also have "\<dots> = written (buf st) (optr st) (32 + (channels - 32)) ?F"
        by (rule written_cong) (simp add: out_value_shift)
      finally show ?thesis using True by simp
    qed
    have "xnn_f16_f32acc_rdsum_ukernel_7p7x__neonfp16arith_c32 fp rd rows channels input
               input_stride zero scale st
          = xnn_f16_f32acc_rdsum_ukernel_7p7x__neonfp16arith_c32 fp rd rows (channels - 32)
               (input + 32 * 2) input_stride zero scale ?st1"
      using True blk
      by (subst xnn_f16_f32acc_rdsum_ukernel_7p7x__neonfp16arith_c32.simps) simp
    then show ?thesis
      unfolding rec rdsum_stores_block [OF True, of "optr st", symmetric]
      using w by (intro exI [of _ q]) simp
  next
    case False
    show ?thesis
    proof (cases "channels = 0")
      case True
      then show ?thesis
        using less.prems
        by (subst xnn_f16_f32acc_rdsum_ukernel_7p7x__neonfp16arith_c32.simps)
           (auto simp: rdsum_stores_def intro: exI [of _ "optr st"])
    next
      case nz: False
      have "\<exists>q. rdsum_remainder fp rd rows channels input input_stride zero scale st
        = Some (st \<lparr> buf := written (buf st) (optr st) channels ?F, optr := q,
                     stores := stores st @ rdsum_stores (optr st) channels \<rparr>)"
        using False nz less.prems rows comm by (intro rdsum_remainder_Some) auto
      then show ?thesis
        using False nz
        by (subst xnn_f16_f32acc_rdsum_ukernel_7p7x__neonfp16arith_c32.simps) simp
    qed
  qed
qed

lemma rdsum_block32_shape:
  assumes len: "optr st + 32 \<le> length (buf st)"
  shows "\<exists>b'. length b' = length (buf st)
      \<and> rdsum_block32 fp rd rows input input_stride zero scale st
        = Some (st \<lparr> buf := b', optr := optr st + 32,
                     stores := stores st @ map (\<lambda>j. (optr st + 4 * j, 4)) [0..<8] \<rparr>)"
proof -
  define vacc where "vacc = map (\<lambda>j. vmulq_f32 fp
      (row_loop (accumulate32 fp rd) zero (7 * input_stride)
      (int_of_size_t rows) (map (\<lambda>k. input + k * input_stride) [0..<7])
      (replicate 8 (vdupq_n_f32 (zero_f32 fp))) ! j) (vdupq_n_f32 scale)) [0..<8]"
  define vo where "vo = map (\<lambda>j. take 4 (drop (optr st + 4 * j) (buf st))) [0..<8]"
  define vout where "vout = map (\<lambda>j. vadd_f16 fp (vo ! j) (vcvt_f16_f32 fp (vacc ! j))) [0..<8]"
  have ld: "load_chunks st (optr st) 8 = Some vo"
    unfolding vo_def using len by (intro load_chunks_Some) simp
  have vout4: "\<forall>v \<in> set vout. length v = 4" by (auto simp: vout_def)
  have lv: "length vout = 8" by (simp add: vout_def)
  have st: "store_chunks st vout
    = Some (st \<lparr> buf := take (optr st) (buf st) @ concat vout @ drop (optr st + 32) (buf st),
                 optr := optr st + 32,
                 stores := stores st @ map (\<lambda>j. (optr st + 4 * j, 4)) [0..<8] \<rparr>)"
    using store_chunks_Some [of st vout] vout4 lv len by simp
  have l: "length (take (optr st) (buf st) @ concat vout @ drop (optr st + 32) (buf st))
        = length (buf st)"
    using len length_concat_chunks [OF vout4] lv by simp
  have "rdsum_block32 fp rd rows input input_stride zero scale st = store_chunks st vout"
    unfolding rdsum_block32_def Let_def vacc_def [symmetric]
    using ld by (simp add: vout_def [symmetric])
  then show ?thesis
    unfolding st using l
    by (intro exI [of _ "take (optr st) (buf st) @ concat vout @ drop (optr st + 32) (buf st)"])
       simp
qed

lemma rdsum_remainder_shape:
  assumes ch: "0 < channels" "channels < 32"
    and len: "optr st + channels \<le> length (buf st)"
  shows "\<exists>b' q. length b' = length (buf st)
      \<and> rdsum_remainder fp rd rows channels input input_stride zero scale st
        = Some (st \<lparr> buf := b', optr := q,
                     stores := stores st @ rdsum_stores (optr st) channels \<rparr>)"
proof -
  let ?p = "optr st" and ?b = "buf st"
  define n where "n = drop_bit 2 channels"
  define m where "m = channels AND 3"
  define nc where "nc = drop_bit 2 (round_up_po2 channels 4)"
  define ns where "ns = drop_bit 2 (channels + 4)"
  have n': "n = channels div 4" and m': "m = channels mod 4"
    and ns': "ns = (channels + 4) div 4"
    by (simp_all add: n_def m_def ns_def drop_bit_eq_div and_3_mod)
  have nm: "channels = 4 * n + m" "m < 4" "n < 8"
    using ch by (auto simp: n' m')
  define vacc where "vacc = row_loop (accumulate_chunks fp rd nc) zero
      (7 * input_stride) (int_of_size_t rows) (map (\<lambda>k. input + k * input_stride) [0..<7])
      (replicate 8 (vdupq_n_f32 (zero_f32 fp)))"
  define vaccS where "vaccS = map (\<lambda>j. if j < ns
      then vmulq_f32 fp (vacc ! j) (vdupq_n_f32 scale) else vacc ! j) [0..<8]"
  define vo where "vo = map (\<lambda>j. take 4 (drop (?p + 4 * j) ?b)) [0..<n]"
  define vout where "vout = map (\<lambda>j. vadd_f16 fp (vo ! j) (vcvt_f16_f32 fp (vaccS ! j))) [0..<n]"
  define low where "low = vcvt_f16_f32 fp (vaccS ! n)"
  have low4: "length low = 4"
    using nm by (simp add: low_def vaccS_def ns')
  have ld: "load_chunks st ?p n = Some vo"
    unfolding vo_def using len nm by (intro load_chunks_Some) simp
  have vout4: "\<forall>v \<in> set vout. length v = 4" by (auto simp: vout_def)
  have lv: "length vout = n" by (simp add: vout_def)
  let ?st1 = "st \<lparr> buf := take ?p ?b @ concat vout @ drop (?p + 4 * n) ?b,
                   optr := ?p + 4 * n,
                   stores := stores st @ map (\<lambda>j. (?p + 4 * j, 4)) [0..<n] \<rparr>"
  have stc: "store_chunks st vout = Some ?st1"
    using store_chunks_Some [of st vout] vout4 lv len nm by simp
  have l1: "length (buf ?st1) = length ?b"
    using len nm length_concat_chunks [OF vout4] lv by simp
  have tail: "store_tail fp low m ?st1
         = Some (?st1 \<lparr> buf := written (buf ?st1) (optr ?st1) m (\<lambda>c old. add_f16 fp (low ! c) old),
                       optr := optr ?st1 + (if 2 \<le> m then 2 else 0),
                       stores := stores ?st1 @ (if 2 \<le> m then [(optr ?st1, 2)] else [])
                                  @ (if odd m then [(optr ?st1 + m - 1, 1)] else []) \<rparr>)"
    using nm len low4 l1 by (intro rdsum_tail) simp_all
  have l2: "length (written (buf ?st1) (optr ?st1) m (\<lambda>c old. add_f16 fp (low ! c) old))
            = length ?b"
    using l1 len nm by (subst length_written) simp_all
  have sl: "map (\<lambda>j. (?p + 4 * j, 4)) [0..<n] @ (if 2 \<le> m then [(?p + 4 * n, 2)] else [])
              @ (if odd m then [(?p + 4 * n + m - 1, 1)] else [])
            = rdsum_stores ?p channels"
  proof -
    have "odd m = odd channels" using nm by simp
    moreover have "?p + 4 * n + m - 1 = ?p + channels - 1" using nm by simp
    ultimately show ?thesis
      by (simp add: rdsum_stores_def n' [symmetric] m' [symmetric])
  qed
  have "rdsum_remainder fp rd rows channels input input_stride zero scale st
        = store_tail fp low m ?st1"
    unfolding rdsum_remainder_def Let_def n_def [symmetric] m_def [symmetric]
      nc_def [symmetric] ns_def [symmetric] vacc_def [symmetric] vaccS_def [symmetric]
      low_def [symmetric]
    using ld stc by (simp add: vout_def [symmetric])
  then show ?thesis
    unfolding sl [symmetric]
    using tail l2
    by (intro exI [of _ "written (buf ?st1) (optr ?st1) m (\<lambda>c old. add_f16 fp (low ! c) old)"]
          exI [of _ "?p + 4 * n + (if 2 \<le> m then 2 else 0)"]) simp
qed

lemma rdsum_kernel_shape:
  assumes len: "optr st + channels \<le> length (buf st)"
  shows "\<exists>b' q. length b' = length (buf st)
      \<and> xnn_f16_f32acc_rdsum_ukernel_7p7x__neonfp16arith_c32 fp rd rows channels input
               input_stride zero scale st
        = Some (st \<lparr> buf := b', optr := q,
                     stores := stores st @ rdsum_stores (optr st) channels \<rparr>)"
  using len
proof (induction channels arbitrary: input st rule: less_induct)
  case (less channels)
  show ?case
  proof (cases "32 \<le> channels")
    case True
    obtain b1 where b1: "length b1 = length (buf st)"
      "rdsum_block32 fp rd rows input input_stride zero scale st
        = Some (st \<lparr> buf := b1, optr := optr st + 32,
                     stores := stores st @ map (\<lambda>j. (optr st + 4 * j, 4)) [0..<8] \<rparr>)"
      using rdsum_block32_shape [of st fp rd rows input input_stride zero scale] True less.prems
      by auto
    let ?st1 = "st \<lparr> buf := b1, optr := optr st + 32,
                     stores := stores st @ map (\<lambda>j. (optr st + 4 * j, 4)) [0..<8] \<rparr>"
    have "\<exists>b' q. length b' = length (buf ?st1)
      \<and> xnn_f16_f32acc_rdsum_ukernel_7p7x__neonfp16arith_c32 fp rd rows (channels - 32)
               (input + 32 * 2) input_stride zero scale ?st1
        = Some (?st1 \<lparr> buf := b', optr := q,
                     stores := stores ?st1 @ rdsum_stores (optr ?st1) (channels - 32) \<rparr>)"
      using True less.prems b1 by (intro less.IH) auto
    then obtain b2 q where rec: "length b2 = length (buf ?st1)"
      "xnn_f16_f32acc_rdsum_ukernel_7p7x__neonfp16arith_c32 fp rd rows (channels - 32)
               (input + 32 * 2) input_stride zero scale ?st1
        = Some (?st1 \<lparr> buf := b2, optr := q,
                     stores := stores ?st1 @ rdsum_stores (optr ?st1) (channels - 32) \<rparr>)"
      by blast
    have "xnn_f16_f32acc_rdsum_ukernel_7p7x__neonfp16arith_c32 fp rd rows channels input
               input_stride zero scale st
          = xnn_f16_f32acc_rdsum_ukernel_7p7x__neonfp16arith_c32 fp rd rows (channels - 32)
               (input + 32 * 2) input_stride zero scale ?st1"
      using True b1
      by (subst xnn_f16_f32acc_rdsum_ukernel_7p7x__neonfp16arith_c32.simps) simp
    then show ?thesis
      unfolding rec rdsum_stores_block [OF True, of "optr st", symmetric]
      using rec(1) b1(1) by (intro exI [of _ b2] exI [of _ q]) simp
  next
    case False
    show ?thesis
    proof (cases "channels = 0")
      case True
      have "st = st \<lparr> buf := buf st, optr := optr st \<rparr>" by simp
      then have "\<exists>b'. length b' = length (buf st) \<and> (\<exists>q. st = st \<lparr> buf := b', optr := q \<rparr>)"
        by blast
      then show ?thesis
        using True less.prems
        by (subst xnn_f16_f32acc_rdsum_ukernel_7p7x__neonfp16arith_c32.simps)
           (simp add: rdsum_stores_def)
    next
      case nz: False
      have "\<exists>b' q. length b' = length (buf st)
        \<and> rdsum_remainder fp rd rows channels input input_stride zero scale st
        = Some (st \<lparr> buf := b', optr := q,
                     stores := stores st @ rdsum_stores (optr st) channels \<rparr>)"
        using False nz less.prems by (intro rdsum_remainder_shape) auto
      then show ?thesis
        using False nz
        by (subst xnn_f16_f32acc_rdsum_ukernel_7p7x__neonfp16arith_c32.simps) simp
    qed
  qed
qed

lemma redirect_nth:
  assumes "0 < r" "k < 7"
  shows "redirect r zero i ! k = (if int k < r then i ! k else zero)"
proof -
  consider "k = 0" | "k = 1" | "k = 2" | "k = 3" | "k = 4" | "k = 5" | "k = 6"
    using assms by linarith
  then show ?thesis
    using assms by cases (auto simp: redirect_def)
qed

lemma rdsum_stores_alt:
  assumes "m < 4"
  shows "rdsum_stores p (4 * n + m)
         = map (\<lambda>j. (p + 4 * j, 4)) [0..<n] @ (if 2 \<le> m then [(p + 4 * n, 2)] else [])
           @ (if odd m then [(p + 4 * n + m - 1, 1)] else [])"
  using assms by (simp add: rdsum_stores_def add.assoc)

lemma channels_split: "\<exists>n m. channels = 4 * n + m \<and> m < (4::nat)"
  by (intro exI [of _ "channels div 4"] exI [of _ "channels mod 4"]) simp

lemma rdsum_stores_sum: "sum_list (map snd (rdsum_stores p channels)) = channels"
proof -
  obtain n m where c: "channels = 4 * n + m" "m < 4" using channels_split by blast
  then consider "m = 0" | "m = 1" | "m = 2" | "m = 3" by linarith
  then show ?thesis
    unfolding c(1) rdsum_stores_alt [OF c(2)]
    by cases (simp_all add: o_def sum_list_triv)
qed

lemma rdsum_stores_bounds:
  assumes "(q, w) \<in> set (rdsum_stores 0 channels)"
  shows "q + w \<le> channels"
proof -
  obtain n m where c: "channels = 4 * n + m" "m < 4" using channels_split by blast
  then consider "m = 0" | "m = 1" | "m = 2" | "m = 3" by linarith
  then show ?thesis
    using assms unfolding c(1) rdsum_stores_alt [OF c(2)]
    by cases auto
qed

lemma full_chunks_cover:
  "(\<exists>j<n. 4 * j \<le> x \<and> x < 4 * j + 4) \<longleftrightarrow> x < 4 * (n::nat)"
proof
  assume "\<exists>j<n. 4 * j \<le> x \<and> x < 4 * j + 4"
  then show "x < 4 * n" by auto
next
  assume "x < 4 * n"
  then have "x div 4 < n \<and> 4 * (x div 4) \<le> x \<and> x < 4 * (x div 4) + 4"
    by auto
  then show "\<exists>j<n. 4 * j \<le> x \<and> x < 4 * j + 4" by blast
qed

lemma rdsum_stores_cover:
  "(\<Union>(q, w) \<in> set (rdsum_stores 0 channels). {q..<q + w}) = {..<channels}"
proof (rule set_eqI)
  fix x
  obtain n m where c: "channels = 4 * n + m" "m < 4" using channels_split by blast
  have "x \<in> (\<Union>(q, w) \<in> set (rdsum_stores 0 channels). {q..<q + w})
        \<longleftrightarrow> (\<exists>j<n. 4 * j \<le> x \<and> x < 4 * j + 4)
            \<or> (2 \<le> m \<and> 4 * n \<le> x \<and> x < 4 * n + 2)
            \<or> (odd m \<and> x = 4 * n + m - 1)"
    unfolding c(1) rdsum_stores_alt [OF c(2)] using odd_pos [of m] by auto
  also have "\<dots> \<longleftrightarrow> x < 4 * n + m"
  proof -
    consider "m = 0" | "m = 1" | "m = 2" | "m = 3" using c by linarith
    then show ?thesis
      unfolding full_chunks_cover by cases auto
  qed
  finally show "x \<in> (\<Union>(q, w) \<in> set (rdsum_stores 0 channels). {q..<q + w}) \<longleftrightarrow> x \<in> {..<channels}"
    using c by simp
qed

lemma row_sum_one_hot:
  "0 < n \<Longrightarrow> row_sum int_arith one_hot_input 64 2 0 n 0 = 1"
proof (induction n)
  case 0
  then show ?case by simp
next
  case (Suc n)
  have step: "row_sum int_arith one_hot_input 64 2 0 (Suc n) 0
              = one_hot_input (64 + n * 2) + row_sum int_arith one_hot_input 64 2 0 n 0"
    by (simp add: row_sum_def int_arith_def)
  show ?case
  proof (cases "n = 0")
    case True
    then show ?thesis by (simp add: row_sum_def int_arith_def one_hot_input_def)
  next
    case False
    then have "one_hot_input (64 + n * 2) = 0" by (simp add: one_hot_input_def)
    then show ?thesis using Suc.IH step False by simp
  qed
qed


lemma row_loop_nonpos: "r \<le> 0 \<Longrightarrow> row_loop body zero input_increment r i vacc = vacc"
  by (subst row_loop.simps) simp

lemma rdsum_kernel_rows_nonpos:
  assumes "int_of_size_t rows \<le> 0"
  shows "xnn_f16_f32acc_rdsum_ukernel_7p7x__neonfp16arith_c32 fp rd rows channels input
           input_stride zero scale st
         = xnn_f16_f32acc_rdsum_ukernel_7p7x__neonfp16arith_c32 fp rd 0 channels input
           input_stride zero scale st"
proof (induction channels arbitrary: input st rule: less_induct)
  case (less channels)
  have z: "int_of_size_t 0 \<le> 0" by (simp add: int_of_size_t_def)
  have blk: "rdsum_block32 fp rd rows input input_stride zero scale st
             = rdsum_block32 fp rd 0 input input_stride zero scale st"
    by (simp add: rdsum_block32_def row_loop_nonpos assms z)
  have rem: "rdsum_remainder fp rd rows channels input input_stride zero scale st
             = rdsum_remainder fp rd 0 channels input input_stride zero scale st"
    by (simp add: rdsum_remainder_def row_loop_nonpos assms z)
  show ?case
  proof (cases "32 \<le> channels")
    case True
    then have "xnn_f16_f32acc_rdsum_ukernel_7p7x__neonfp16arith_c32 fp rd rows (channels - 32)
           (input + 64) input_stride zero scale
         = xnn_f16_f32acc_rdsum_ukernel_7p7x__neonfp16arith_c32 fp rd 0 (channels - 32)
           (input + 64) input_stride zero scale"
      by (intro ext less.IH) simp
    then show ?thesis
      using True blk
      by (simp add: xnn_f16_f32acc_rdsum_ukernel_7p7x__neonfp16arith_c32.simps [of fp rd rows channels]
            xnn_f16_f32acc_rdsum_ukernel_7p7x__neonfp16arith_c32.simps [of fp rd 0 channels])
  next
    case False
    then show ?thesis
      using rem
      by (simp add: xnn_f16_f32acc_rdsum_ukernel_7p7x__neonfp16arith_c32.simps [of fp rd rows channels]
            xnn_f16_f32acc_rdsum_ukernel_7p7x__neonfp16arith_c32.simps [of fp rd 0 channels])
  qed
qed

subsection \<open>Rounding errors of one call and of two\<close>







lemma row_sum_Suc:
  "row_sum fp rd base stride c (Suc n) a =
     add_f32 fp (cvt_f32_f16 fp (rd (base + n * stride + 2 * c))) (row_sum fp rd base stride c n a)"
  by (simp add: row_sum_def)





subsection \<open>The arithmetic with the range of half precision\<close>




lemma binary16_rounding:
  "map binary16 [2047, 2049, 2051, 4097, 65504, 65519, 65520, - 2051]
   = [Some 2047, Some 2048, Some 2052, Some 4096, Some 65504, Some 65504, None, Some (- 2052)]"
  by (simp add: binary16_def half_quantum_def Let_def)



lemma row_sum_cong:
  assumes "\<And>t. t < n \<Longrightarrow> rd' (base + t * stride + 2 * c) = rd (base + t * stride + 2 * c)"
  shows "row_sum fp rd' base stride c n a = row_sum fp rd base stride c n a"
  using assms
proof (induction n)
  case 0
  show ?case by (simp add: row_sum_def)
next
  case (Suc n)
  then show ?case by (simp add: row_sum_Suc)
qed

subsection \<open>Claims about the reduction kernel\<close>

text \<open>
  C5.  The claim as stated covers every \<open>rows > 0\<close> that is not a multiple of 7.  The row
  counter is an \<^verbatim>\<open>int\<close>: for \<open>rows = 2147483651\<close> (remainder 5 modulo 7) it starts
  negative and no row is read: on one channel, with input row 0 holding 1, zeros in the
  \<^verbatim>\<open>zero\<close> buffer, scale 1 and old output 0, the kernel stores 0 where the scaled sum of the
  rows is 1.
\<close>

theorem rdsum_rows_beyond_int_skipped:
  "xnn_f16_f32acc_rdsum_ukernel_7p7x__neonfp16arith_c32 int_arith one_hot_input 2147483651 1
     64 2 0 1 \<lparr> buf = [0], optr = 0, stores = [] \<rparr>
   = Some \<lparr> buf = [0], optr = 0, stores = [(0, 1)] \<rparr>
   \<and> add_f16 int_arith 0
       (cvt_f16_f32 int_arith
         (mul_f32 int_arith (row_sum int_arith one_hot_input 64 2 0 2147483651 (zero_f32 int_arith)) 1))
     = 1
   \<and> zero_neutral int_arith one_hot_input 0 0
   \<and> 2147483651 mod 7 \<noteq> (0::nat)"
proof -
  have "int_of_size_t 2147483651 \<le> 0" by (simp add: int_of_size_t_def)
  moreover have "xnn_f16_f32acc_rdsum_ukernel_7p7x__neonfp16arith_c32 int_arith one_hot_input 0 1
     64 2 0 1 \<lparr> buf = [0], optr = 0, stores = [] \<rparr>
   = Some \<lparr> buf = [0], optr = 0, stores = [(0, 1)] \<rparr>"
    by code_simp
  moreover have "row_sum int_arith one_hot_input 64 2 0 2147483651 0 = 1"
    by (rule row_sum_one_hot) simp
  ultimately show ?thesis
    by (simp add: rdsum_kernel_rows_nonpos int_arith_def zero_neutral_def one_hot_input_def)
qed

text \<open>
  C5, amended: for \<open>0 < rows < 2^31\<close>, whether or not a multiple of 7, when adding an element
  of the \<^verbatim>\<open>zero\<close> buffer changes no accumulator (and the half-precision addition is
  commutative).  The kernel returns, and every channel of the output holds its old value plus
  the narrowed product of the scale and the single-precision sum of exactly the rows
  \<open>0, ..., rows - 1\<close> of the channel; and the output is the same for every other memory that
  holds the same values in these rows: what the pointers of a group read at or beyond the
  row count, through the \<^verbatim>\<open>zero\<close> buffer, adds nothing.
\<close>

theorem rdsum_rows_exact:
  assumes "0 < rows" "rows < 2 ^ 31" "channels \<le> length output"
    and "\<forall>c<min channels 32. zero_neutral fp rd zero c"
    and "\<forall>x y. add_f16 fp x y = add_f16 fp y x"
  shows "\<exists>st'. xnn_f16_f32acc_rdsum_ukernel_7p7x__neonfp16arith_c32 fp rd rows channels input
               input_stride zero scale \<lparr> buf = output, optr = 0, stores = [] \<rparr> = Some st'
      \<and> (\<forall>c<channels. buf st' ! c
            = add_f16 fp (output ! c)
                (cvt_f16_f32 fp (mul_f32 fp
                   (row_sum fp rd input input_stride c rows (zero_f32 fp)) scale)))
      \<and> (\<forall>rd'. (\<forall>c<channels. \<forall>t<rows.
                     rd' (input + t * input_stride + 2 * c) = rd (input + t * input_stride + 2 * c))
                 \<and> (\<forall>c<min channels 32. zero_neutral fp rd' zero c)
             \<longrightarrow> map_option buf
                   (xnn_f16_f32acc_rdsum_ukernel_7p7x__neonfp16arith_c32 fp rd' rows channels input
                      input_stride zero scale \<lparr> buf = output, optr = 0, stores = [] \<rparr>)
                 = Some (buf st'))"
proof -
  let ?st = "\<lparr> buf = output, optr = 0, stores = [] \<rparr>"
  have len: "optr ?st + channels \<le> length (buf ?st)" using assms(3) by simp
  obtain q where k: "xnn_f16_f32acc_rdsum_ukernel_7p7x__neonfp16arith_c32 fp rd rows channels input
               input_stride zero scale ?st
    = Some \<lparr> buf = written output 0 channels (out_value fp rd rows input input_stride scale),
             optr = q, stores = rdsum_stores 0 channels \<rparr>"
    using rdsum_kernel_general [OF assms(2,4,5) len, of "input" input_stride scale] by auto
  have other: "map_option buf
                 (xnn_f16_f32acc_rdsum_ukernel_7p7x__neonfp16arith_c32 fp rd' rows channels input
                    input_stride zero scale ?st)
               = Some (written output 0 channels (out_value fp rd rows input input_stride scale))"
    if agree: "\<forall>c<channels. \<forall>t<rows.
                 rd' (input + t * input_stride + 2 * c) = rd (input + t * input_stride + 2 * c)"
      and z: "\<forall>c<min channels 32. zero_neutral fp rd' zero c" for rd'
  proof -
    obtain q' where k': "xnn_f16_f32acc_rdsum_ukernel_7p7x__neonfp16arith_c32 fp rd' rows channels
                 input input_stride zero scale ?st
      = Some \<lparr> buf = written output 0 channels (out_value fp rd' rows input input_stride scale),
               optr = q', stores = rdsum_stores 0 channels \<rparr>"
      using rdsum_kernel_general [OF assms(2) z assms(5) len, of "input" input_stride scale]
      by auto
    have "written output 0 channels (out_value fp rd' rows input input_stride scale)
          = written output 0 channels (out_value fp rd rows input input_stride scale)"
    proof (rule written_cong)
      fix c assume c: "c < channels"
      have "row_sum fp rd' input input_stride c rows (zero_f32 fp)
            = row_sum fp rd input input_stride c rows (zero_f32 fp)"
        by (rule row_sum_cong) (use agree c in blast)
      then show "out_value fp rd' rows input input_stride scale c (output ! (0 + c))
                 = out_value fp rd rows input input_stride scale c (output ! (0 + c))"
        by (simp only: out_value_def)
    qed
    then show ?thesis by (simp add: k')
  qed
  have vals: "\<forall>c<channels.
      written output 0 channels (out_value fp rd rows input input_stride scale) ! c
        = add_f16 fp (output ! c)
            (cvt_f16_f32 fp (mul_f32 fp
               (row_sum fp rd input input_stride c rows (zero_f32 fp)) scale))"
    using assms(3) by (simp add: written_nth out_value_def)
  show ?thesis
  proof (intro exI conjI)
    show "xnn_f16_f32acc_rdsum_ukernel_7p7x__neonfp16arith_c32 fp rd rows channels input
               input_stride zero scale ?st
          = Some \<lparr> buf = written output 0 channels (out_value fp rd rows input input_stride scale),
                   optr = q, stores = rdsum_stores 0 channels \<rparr>"
      by (rule k)
    show "\<forall>c<channels.
        buf \<lparr> buf = written output 0 channels (out_value fp rd rows input input_stride scale),
              optr = q, stores = rdsum_stores 0 channels \<rparr> ! c
        = add_f16 fp (output ! c)
            (cvt_f16_f32 fp (mul_f32 fp
               (row_sum fp rd input input_stride c rows (zero_f32 fp)) scale))"
      using vals by simp
    show "\<forall>rd'. (\<forall>c<channels. \<forall>t<rows.
                     rd' (input + t * input_stride + 2 * c) = rd (input + t * input_stride + 2 * c))
                 \<and> (\<forall>c<min channels 32. zero_neutral fp rd' zero c)
             \<longrightarrow> map_option buf
                   (xnn_f16_f32acc_rdsum_ukernel_7p7x__neonfp16arith_c32 fp rd' rows channels input
                      input_stride zero scale ?st)
                 = Some (buf \<lparr> buf = written output 0 channels
                                         (out_value fp rd rows input input_stride scale),
                               optr = q, stores = rdsum_stores 0 channels \<rparr>)"
    proof (intro allI impI)
      fix rd' :: "nat \<Rightarrow> 'a"
      assume h: "(\<forall>c<channels. \<forall>t<rows.
                     rd' (input + t * input_stride + 2 * c) = rd (input + t * input_stride + 2 * c))
                 \<and> (\<forall>c<min channels 32. zero_neutral fp rd' zero c)"
      from other [OF conjunct1 [OF h] conjunct2 [OF h]]
      show "map_option buf
                   (xnn_f16_f32acc_rdsum_ukernel_7p7x__neonfp16arith_c32 fp rd' rows channels input
                      input_stride zero scale ?st)
                 = Some (buf \<lparr> buf = written output 0 channels
                                         (out_value fp rd rows input input_stride scale),
                               optr = q, stores = rdsum_stores 0 channels \<rparr>)"
        by simp
    qed
  qed
qed

theorem rdsum_rows_exact_witness:
  "\<exists>st'. xnn_f16_f32acc_rdsum_ukernel_7p7x__neonfp16arith_c32 int_arith ramp_input 3 5 0 100
            1000 2 \<lparr> buf = [1, 1, 1, 1, 1], optr = 0, stores = [] \<rparr> = Some st'
        \<and> buf st' ! 0 = 601 \<and> buf st' ! 4 = 649
        \<and> map_option buf
            (xnn_f16_f32acc_rdsum_ukernel_7p7x__neonfp16arith_c32 int_arith
               (\<lambda>a. if a < 300 then int a else 0) 3 5 0 100
               1000 2 \<lparr> buf = [1, 1, 1, 1, 1], optr = 0, stores = [] \<rparr>) = Some (buf st')"
proof -
  have z: "\<forall>c<min 5 32. zero_neutral int_arith ramp_input 1000 c"
    by (simp add: zero_neutral_def int_arith_def ramp_input_def)
  have z': "\<forall>c<min 5 32. zero_neutral int_arith (\<lambda>a. if a < 300 then int a else 0) 1000 c"
    by (simp add: zero_neutral_def int_arith_def)
  have comm: "\<forall>x y. add_f16 int_arith x y = add_f16 int_arith y x"
    by (simp add: int_arith_def)
  have s: "row_sum int_arith ramp_input 0 100 0 3 (zero_f32 int_arith) = 300"
    "row_sum int_arith ramp_input 0 100 4 3 (zero_f32 int_arith) = 324"
    by (simp_all add: row_sum_def int_arith_def ramp_input_def upt_rec)
  have a: "add_f16 int_arith = (+)" "mul_f32 int_arith = (*)" "cvt_f16_f32 int_arith = (\<lambda>x. x)"
    by (simp_all add: int_arith_def)
  have agree: "\<forall>c<5. \<forall>t<3. (\<lambda>a. if a < 300 then int a else 0) (0 + t * 100 + 2 * c)
                 = ramp_input (0 + t * 100 + 2 * c)"
  proof (intro allI impI)
    fix c t :: nat assume "c < 5" "t < 3"
    then have "0 + t * 100 + 2 * c < 300" by simp
    then show "(\<lambda>a. if a < 300 then int a else 0) (0 + t * 100 + 2 * c)
                 = ramp_input (0 + t * 100 + 2 * c)"
      by (simp add: ramp_input_def)
  qed
  note inst = rdsum_rows_exact [of 3 5 "[1, 1, 1, 1, 1]" int_arith ramp_input 1000 0 100 2,
      OF _ _ _ z comm, simplified]
  then obtain st' where one:
    "xnn_f16_f32acc_rdsum_ukernel_7p7x__neonfp16arith_c32 int_arith ramp_input 3 5 0 100
        1000 2 \<lparr> buf = [1, 1, 1, 1, 1], optr = 0, stores = [] \<rparr> = Some st'"
    "\<forall>c<5. buf st' ! c = add_f16 int_arith ([1, 1, 1, 1, 1] ! c)
        (cvt_f16_f32 int_arith (mul_f32 int_arith
           (row_sum int_arith ramp_input 0 100 c 3 (zero_f32 int_arith)) 2))"
    "\<forall>rd'. (\<forall>c<5. \<forall>t<3. rd' (t * 100 + 2 * c) = ramp_input (t * 100 + 2 * c))
           \<and> (\<forall>c<5. zero_neutral int_arith rd' 1000 c)
       \<longrightarrow> map_option buf
             (xnn_f16_f32acc_rdsum_ukernel_7p7x__neonfp16arith_c32 int_arith rd' 3 5 0 100
                1000 2 \<lparr> buf = [1, 1, 1, 1, 1], optr = 0, stores = [] \<rparr>) = Some (buf st')"
    by blast
  have "buf st' ! 0 = 601" "buf st' ! 4 = 649"
    using one(2) s by (simp_all add: a)
  moreover have "map_option buf
            (xnn_f16_f32acc_rdsum_ukernel_7p7x__neonfp16arith_c32 int_arith
               (\<lambda>a. if a < 300 then int a else 0) 3 5 0 100
               1000 2 \<lparr> buf = [1, 1, 1, 1, 1], optr = 0, stores = [] \<rparr>) = Some (buf st')"
    using one(3) [rule_format, of "\<lambda>a. if a < 300 then int a else 0"] agree z' by simp
  ultimately show ?thesis
    using one(1) by blast
qed




text \<open>
  C6.  On an output buffer of exactly \<open>channels\<close> elements the kernel completes, whatever
  the arithmetic, the input and the row count: no load or store leaves the buffer.  Its
  stores are the four-wide stores of the full groups of four, then one two-element store if
  bit 1 of \<open>channels\<close> is set, then one one-element store if bit 0 is set; every store ends at
  or before element \<open>channels\<close>, together they cover the elements \<open>0, ..., channels - 1\<close>, and
  their widths add up to \<open>channels\<close>, so each of these elements is written once.
\<close>


theorem rdsum_stores_within_channels:
  assumes "length output = channels"
  shows "\<exists>st'. xnn_f16_f32acc_rdsum_ukernel_7p7x__neonfp16arith_c32 fp rd rows channels input
               input_stride zero scale \<lparr> buf = output, optr = 0, stores = [] \<rparr> = Some st'
      \<and> length (buf st') = channels
      \<and> stores st' = map (\<lambda>j. (4 * j, 4)) [0..<channels div 4]
                      @ (if 2 \<le> channels mod 4 then [(4 * (channels div 4), 2)] else [])
                      @ (if odd channels then [(channels - 1, 1)] else [])
      \<and> (\<forall>(q, w) \<in> set (stores st'). q + w \<le> channels)
      \<and> (\<Union>(q, w) \<in> set (stores st'). {q..<q + w}) = {..<channels}
      \<and> sum_list (map snd (stores st')) = channels"
proof -
  obtain b' q where k: "length b' = channels"
    "xnn_f16_f32acc_rdsum_ukernel_7p7x__neonfp16arith_c32 fp rd rows channels input
               input_stride zero scale \<lparr> buf = output, optr = 0, stores = [] \<rparr>
     = Some \<lparr> buf = b', optr = q, stores = rdsum_stores 0 channels \<rparr>"
    using rdsum_kernel_shape [of "\<lparr> buf = output, optr = 0, stores = [] \<rparr>" channels fp rd rows
        "input" input_stride zero scale] assms
    by auto
  have "rdsum_stores 0 channels = map (\<lambda>j. (4 * j, 4)) [0..<channels div 4]
                      @ (if 2 \<le> channels mod 4 then [(4 * (channels div 4), 2)] else [])
                      @ (if odd channels then [(channels - 1, 1)] else [])"
    by (simp add: rdsum_stores_def)
  moreover have "\<forall>(q, w) \<in> set (rdsum_stores 0 channels). q + w \<le> channels"
    using rdsum_stores_bounds by blast
  ultimately show ?thesis
    unfolding k(2) using k(1) rdsum_stores_cover [of channels] rdsum_stores_sum [of 0 channels]
    by (intro exI [of _ "\<lparr> buf = b', optr = q, stores = rdsum_stores 0 channels \<rparr>"]) simp
qed

theorem rdsum_stores_within_channels_witness:
  "\<exists>st'. xnn_f16_f32acc_rdsum_ukernel_7p7x__neonfp16arith_c32 int_arith ramp_input 3 39 0 100
            1000 2 \<lparr> buf = replicate 39 0, optr = 0, stores = [] \<rparr> = Some st'
      \<and> length (buf st') = 39
      \<and> stores st' = [(0, 4), (4, 4), (8, 4), (12, 4), (16, 4), (20, 4), (24, 4), (28, 4),
                       (32, 4), (36, 2), (38, 1)]"
proof -
  have "[0..<39 div 4] = [0, 1, 2, 3, 4, 5, 6, 7, 8]" by (simp add: upt_rec)
  then show ?thesis
    using rdsum_stores_within_channels [of "replicate 39 (0::int)" 39 int_arith ramp_input 3 0 100
        1000 2]
    by simp blast
qed

section \<open>Properties of the matrix product kernel\<close>

subsection \<open>Loads of weights and the accumulators\<close>






























subsection \<open>One tile of results\<close>





subsection \<open>The loads through the weight pointer\<close>






subsection \<open>Stores\<close>




















lemma writes_colsI:
  assumes "\<And>mem m j. m < mr \<Longrightarrow> j < J \<Longrightarrow> f mem (c_addr c cms cns m (n0 + j)) = V m j"
    and "\<And>mem x. (\<And>m j. m < mr \<Longrightarrow> j < J \<Longrightarrow> x \<noteq> c_addr c cms cns m (n0 + j))
           \<Longrightarrow> f mem x = mem x"
  shows "writes_cols c cms cns mr f n0 J V"
  unfolding writes_cols_def using assms by blast




lemma writes_cols_empty: "writes_cols c cms cns mr (\<lambda>mem. mem) n0 0 V"
  by (rule writes_colsI) simp_all







subsection \<open>The loop over the groups of columns\<close>








subsection \<open>Claims about the matrix product kernel\<close>





end
